theory Spec2Isabelle
  imports Complex_Main "HOL-Library.AList" "HOL-Library.Multiset" "HOL-Library.Product_Lexorder"
begin

section \<open>Numeric kernel (app/geometry/kernels.py)\<close>

text \<open>
  The source computes on NumPy float64 values. A point is the array \<open>[x, y]\<close>, a
  line the array \<open>[A, B, C]\<close> of \<open>A x + B y + C = 0\<close>, a circle the array
  \<open>[cx, cy, r_sq]\<close>. The kernel and the canonical forms are given twice. This
  section and the next idealise float64 as \<^typ>\<open>real\<close> (every operation exact,
  \<open>np.sqrt\<close> is \<^const>\<open>sqrt\<close>, no NaN and no infinity); the successor generator
  and the search run on these, and the statements about them are either about the
  ids and the structure of the search, which do not read the numbers, or about
  inputs on which no operation of the kernel rounds. The section on binary64 gives
  the same functions on float64 values with the rounding of every operation; what
  is said about the arithmetic of the kernel itself (C5, C6) is proved there.
\<close>

type_synonym point = "real \<times> real"
type_synonym line = "real \<times> real \<times> real"
type_synonym circle = "real \<times> real \<times> real"

definition EPSILON :: real where
  "EPSILON = 1 / 10 ^ 9"

definition construct_line_from_points :: "point \<Rightarrow> point \<Rightarrow> line" where
  "construct_line_from_points p1 p2 =
     (let A = snd p1 - snd p2;
          B = fst p2 - fst p1;
          C = fst p1 * snd p2 - fst p2 * snd p1
      in (A, B, C))"

definition construct_circle_from_points :: "point \<Rightarrow> point \<Rightarrow> circle" where
  "construct_circle_from_points center point_on_circumference =
     (case center of (cx, cy) \<Rightarrow>
      case point_on_circumference of (px, py) \<Rightarrow>
        (cx, cy, (px - cx)\<^sup>2 + (py - cy)\<^sup>2))"

text \<open>
  Every \<open>intersect_*\<close> function of the source returns \<open>(results, count)\<close>, where
  \<open>results\<close> is a 2x2 buffer pre-filled with NaN and \<open>count\<close> says how many rows
  were written. The model returns the written rows as a list together with the count;
  the rows that stay NaN are not represented (no caller reads them).
\<close>

definition intersect_line_line :: "line \<Rightarrow> line \<Rightarrow> point list \<times> nat" where
  "intersect_line_line line1 line2 =
     (case line1 of (A1, B1, C1) \<Rightarrow>
      case line2 of (A2, B2, C2) \<Rightarrow>
        let det = A1 * B2 - A2 * B1 in
        if \<bar>det\<bar> < EPSILON then ([], 0)
        else
          let x = (B2 * - C1 - B1 * - C2) / det;
              y = (A1 * - C2 - A2 * - C1) / det
          in ([(x, y)], 1))"

definition intersect_line_circle :: "line \<Rightarrow> circle \<Rightarrow> point list \<times> nat" where
  "intersect_line_circle line circle =
     (case line of (A, B, C) \<Rightarrow>
      case circle of (cx, cy, r_sq) \<Rightarrow>
        let det_line = A * A + B * B in
        if det_line < EPSILON then ([], 0)
        else
          let x_closest = (B * B * cx - A * B * cy - A * C) / det_line;
              y_closest = (- A * B * cx + A * A * cy - B * C) / det_line;
              dist_sq = (x_closest - cx)\<^sup>2 + (y_closest - cy)\<^sup>2
          in
          if dist_sq > r_sq + EPSILON then ([], 0)
          else if \<bar>dist_sq - r_sq\<bar> < EPSILON then ([(x_closest, y_closest)], 1)
          else
            let half_chord_length = sqrt (r_sq - dist_sq);
                line_dir_norm = sqrt det_line;
                p1_x = x_closest + (half_chord_length * - B) / line_dir_norm;
                p1_y = y_closest + (half_chord_length * A) / line_dir_norm;
                p2_x = x_closest - (half_chord_length * - B) / line_dir_norm;
                p2_y = y_closest - (half_chord_length * A) / line_dir_norm
            in ([(p1_x, p1_y), (p2_x, p2_y)], 2))"

definition intersect_circle_circle :: "circle \<Rightarrow> circle \<Rightarrow> point list \<times> nat" where
  "intersect_circle_circle c1 c2 =
     (case c1 of (x1, y1, r1_sq) \<Rightarrow>
      case c2 of (x2, y2, r2_sq) \<Rightarrow>
        let r1 = sqrt r1_sq;
            r2 = sqrt r2_sq;
            d_sq = (x1 - x2)\<^sup>2 + (y1 - y2)\<^sup>2
        in
        if d_sq < EPSILON then ([], 0)
        else
          let d = sqrt d_sq in
          if d > r1 + r2 + EPSILON \<or> d < \<bar>r1 - r2\<bar> - EPSILON then ([], 0)
          else
            let A = 2 * (x2 - x1);
                B = 2 * (y2 - y1);
                C = (x1\<^sup>2 - x2\<^sup>2) + (y1\<^sup>2 - y2\<^sup>2) - (r1_sq - r2_sq)
            in intersect_line_circle (A, B, C) c1)"

section \<open>Canonical forms (app/geometry/primitives.py)\<close>

definition HASH_PRECISION :: nat where
  "HASH_PRECISION = 10"

text \<open>
  \<open>round(x, n)\<close> on a float64 scales by \<open>10 ** n\<close>, rounds to the nearest integer
  with ties going to the even one, and scales back.
\<close>

definition rint :: "real \<Rightarrow> int" where
  "rint y =
     (let f = \<lfloor>y\<rfloor>; d = y - of_int f in
      if d < 1 / 2 then f
      else if 1 / 2 < d then f + 1
      else if even f then f else f + 1)"

definition py_round :: "real \<Rightarrow> nat \<Rightarrow> real" where
  "py_round x n = of_int (rint (x * 10 ^ n)) / 10 ^ n"

definition normalize_point :: "point \<Rightarrow> point" where
  "normalize_point p = (py_round (fst p) HASH_PRECISION, py_round (snd p) HASH_PRECISION)"

definition normalize_line :: "line \<Rightarrow> line" where
  "normalize_line l =
     (case l of (A, B, C) \<Rightarrow>
        let norm = sqrt (A\<^sup>2 + B\<^sup>2) in
        if norm < 1 / 10 ^ 9 then (0, 0, 0)
        else
          case (A / norm, B / norm, C / norm) of (A, B, C) \<Rightarrow>
          case (if \<bar>A\<bar> > 1 / 10 ^ 9 \<and> A < 0 then (- A, - B, - C)
                else if \<bar>A\<bar> < 1 / 10 ^ 9 \<and> \<bar>B\<bar> > 1 / 10 ^ 9 \<and> B < 0 then (- A, - B, - C)
                else (A, B, C)) of (A, B, C) \<Rightarrow>
            (py_round A HASH_PRECISION, py_round B HASH_PRECISION, py_round C HASH_PRECISION))"

definition normalize_circle :: "circle \<Rightarrow> circle" where
  "normalize_circle c =
     (case c of (cx, cy, r_sq) \<Rightarrow>
        (py_round cx HASH_PRECISION, py_round cy HASH_PRECISION, py_round r_sq HASH_PRECISION))"

section \<open>The kernel on binary64 values\<close>

text \<open>
  A float64 value is a finite number, an infinity or NaN. The finite values are the
  binary64 numbers \<open>k * 2 ^ j\<close> with \<open>|k| < 2 ^ 53\<close> and \<open>-1074 \<le> j \<le> 971\<close>;
  \<open>round64\<close> rounds a real number to the nearest of them, a tie to the one with
  the even significand, and to an infinity from \<open>2 ^ 1024 - 2 ^ 970\<close> on
  (IEEE 754, round to nearest even). \<open>pow2 k\<close> is \<open>2 ^ k\<close> for an integer \<open>k\<close>; the
  unit in the last place of \<open>x\<close> is \<open>pow2 (e - 52)\<close> for the exponent \<open>e\<close> of \<open>x\<close>,
  which is at least \<open>-1022\<close> (below that the numbers are subnormal). The two zeros
  are one value: the program compares and hashes them as equal and never divides
  by zero.
\<close>

datatype f64 = Fin real | PInf | NInf | NaN

definition pow2 :: "int \<Rightarrow> real" where
  "pow2 k = (if 0 \<le> k then 2 ^ nat k else 1 / 2 ^ nat (- k))"

definition round64 :: "real \<Rightarrow> f64" where
  "round64 x =
     (if x = 0 then Fin 0
      else
        let e = max \<lfloor>log 2 \<bar>x\<bar>\<rfloor> (- 1022);
            q = pow2 (e - 52);
            y = of_int (rint (x / q)) * q
        in if 2 ^ 1024 \<le> \<bar>y\<bar> then (if 0 < x then PInf else NInf) else Fin y)"

text \<open>
  The operations of IEEE 754 on these values: the exact result, rounded. A
  comparison with NaN is false. \<open>exact x\<close> says that \<open>x\<close> is a binary64 number.
  Every divisor of the program is tested against \<open>EPSILON\<close> or is the square root of
  such a value or a NaN, so the value given to a division by zero is never read.
\<close>

fun fneg :: "f64 \<Rightarrow> f64" where
  "fneg (Fin a) = Fin (- a)"
| "fneg PInf = NInf"
| "fneg NInf = PInf"
| "fneg NaN = NaN"

fun fabs :: "f64 \<Rightarrow> f64" where
  "fabs (Fin a) = Fin \<bar>a\<bar>"
| "fabs PInf = PInf"
| "fabs NInf = PInf"
| "fabs NaN = NaN"

fun fadd :: "f64 \<Rightarrow> f64 \<Rightarrow> f64" where
  "fadd (Fin a) (Fin b) = round64 (a + b)"
| "fadd NaN _ = NaN"
| "fadd _ NaN = NaN"
| "fadd PInf NInf = NaN"
| "fadd NInf PInf = NaN"
| "fadd PInf _ = PInf"
| "fadd _ PInf = PInf"
| "fadd NInf _ = NInf"
| "fadd _ NInf = NInf"

definition fsub :: "f64 \<Rightarrow> f64 \<Rightarrow> f64" where
  "fsub a b = fadd a (fneg b)"

fun fmul :: "f64 \<Rightarrow> f64 \<Rightarrow> f64" where
  "fmul (Fin a) (Fin b) = round64 (a * b)"
| "fmul NaN _ = NaN"
| "fmul _ NaN = NaN"
| "fmul (Fin a) PInf = (if a = 0 then NaN else if 0 < a then PInf else NInf)"
| "fmul (Fin a) NInf = (if a = 0 then NaN else if 0 < a then NInf else PInf)"
| "fmul PInf (Fin b) = (if b = 0 then NaN else if 0 < b then PInf else NInf)"
| "fmul NInf (Fin b) = (if b = 0 then NaN else if 0 < b then NInf else PInf)"
| "fmul PInf PInf = PInf"
| "fmul PInf NInf = NInf"
| "fmul NInf PInf = NInf"
| "fmul NInf NInf = PInf"

fun fdiv :: "f64 \<Rightarrow> f64 \<Rightarrow> f64" where
  "fdiv (Fin a) (Fin b) = (if b = 0 then NaN else round64 (a / b))"
| "fdiv NaN _ = NaN"
| "fdiv _ NaN = NaN"
| "fdiv (Fin a) PInf = Fin 0"
| "fdiv (Fin a) NInf = Fin 0"
| "fdiv PInf (Fin b) = (if b = 0 then NaN else if 0 < b then PInf else NInf)"
| "fdiv NInf (Fin b) = (if b = 0 then NaN else if 0 < b then NInf else PInf)"
| "fdiv PInf PInf = NaN"
| "fdiv PInf NInf = NaN"
| "fdiv NInf PInf = NaN"
| "fdiv NInf NInf = NaN"


fun frint :: "f64 \<Rightarrow> f64" where
  "frint (Fin a) = Fin (of_int (rint a))"
| "frint PInf = PInf"
| "frint NInf = NInf"
| "frint NaN = NaN"

fun flt :: "f64 \<Rightarrow> f64 \<Rightarrow> bool" where
  "flt (Fin a) (Fin b) \<longleftrightarrow> a < b"
| "flt NaN _ \<longleftrightarrow> False"
| "flt _ NaN \<longleftrightarrow> False"
| "flt _ NInf \<longleftrightarrow> False"
| "flt PInf _ \<longleftrightarrow> False"
| "flt NInf _ \<longleftrightarrow> True"
| "flt _ PInf \<longleftrightarrow> True"

definition exact :: "real \<Rightarrow> bool" where
  "exact x \<longleftrightarrow> round64 x = Fin x"

text \<open>
  The literal \<open>1e-9\<close> is the binary64 number nearest to \<open>10 ^ -9\<close>. The two
  intersection kernels follow, operation by operation in the order in which the
  source evaluates them. They are compiled by Numba without \<open>fastmath\<close>, so that
  each operation is the IEEE operation and \<open>x**2\<close> with the literal exponent is the
  product \<open>x * x\<close>; \<open>np.sqrt\<close> of a negative number is NaN.
\<close>

definition EPSILON_f64 :: f64 where
  "EPSILON_f64 = round64 (1 / 10 ^ 9)"

type_synonym fpoint = "f64 \<times> f64"
type_synonym fline = "f64 \<times> f64 \<times> f64"

definition intersect_line_line_f64 :: "fline \<Rightarrow> fline \<Rightarrow> fpoint list \<times> nat" where
  "intersect_line_line_f64 line1 line2 =
     (case line1 of (A1, B1, C1) \<Rightarrow>
      case line2 of (A2, B2, C2) \<Rightarrow>
        let det = fsub (fmul A1 B2) (fmul A2 B1) in
        if flt (fabs det) EPSILON_f64 then ([], 0)
        else
          let x = fdiv (fsub (fmul B2 (fneg C1)) (fmul B1 (fneg C2))) det;
              y = fdiv (fsub (fmul A1 (fneg C2)) (fmul A2 (fneg C1))) det
          in ([(x, y)], 1))"


section \<open>States, ids and steps\<close>

text \<open>
  A Python \<open>dict\<close> keeps its keys in insertion order, and the successor generator
  enumerates keys in that order; a dictionary is therefore an association list with
  distinct keys. \<open>d[k] = v\<close> replaces the value in place when \<open>k\<close> is a key and
  appends \<open>(k, v)\<close> otherwise, which is \<^const>\<open>AList.update\<close>. \<open>d[k]\<close> is only
  ever evaluated at keys drawn from \<open>d\<close> itself.
\<close>

type_synonym 'v pydict = "(string \<times> 'v) list"

definition dict_keys :: "'v pydict \<Rightarrow> string list" where
  "dict_keys d = map fst d"

definition dict_values :: "'v pydict \<Rightarrow> 'v list" where
  "dict_values d = map snd d"

definition getitem :: "'v pydict \<Rightarrow> string \<Rightarrow> 'v" where
  "getitem d k = the (map_of d k)"

record objects =
  points :: "point pydict"
  lines :: "line pydict"
  circles :: "circle pydict"

datatype obj_type = Point | Line | Circle

text \<open>A figure is an object type together with its data array.\<close>

datatype figure = PointData point | LineData line | CircleData circle

fun figure_type :: "figure \<Rightarrow> obj_type" where
  "figure_type (PointData _) = Point"
| "figure_type (LineData _) = Line"
| "figure_type (CircleData _) = Circle"

text \<open>\<open>norm_funcs[obj_type](data)\<close>\<close>

fun norm_funcs :: "figure \<Rightarrow> figure" where
  "norm_funcs (PointData p) = PointData (normalize_point p)"
| "norm_funcs (LineData l) = LineData (normalize_line l)"
| "norm_funcs (CircleData c) = CircleData (normalize_circle c)"

text \<open>\<open>objects[f'{obj_type}s'][obj_id]\<close>\<close>

fun lookup_figure :: "objects \<Rightarrow> obj_type \<Rightarrow> string \<Rightarrow> figure" where
  "lookup_figure objs Point k = PointData (getitem (points objs) k)"
| "lookup_figure objs Line k = LineData (getitem (lines objs) k)"
| "lookup_figure objs Circle k = CircleData (getitem (circles objs) k)"

type_synonym next_ids = "obj_type \<Rightarrow> nat"

type_synonym state = "objects \<times> next_ids"

record step =
  operation :: string
  inputs :: "string list"
  output_type :: obj_type
  output_id :: string

subsection \<open>Python strings and decimal id ordinals\<close>

text \<open>
  A Python \<open>str\<close> is a sequence of Unicode code points. The model keeps a string
  as the bytes of its UTF-8 encoding, so that the ids the program forms itself,
  \<open>p\<close>, \<open>l\<close> or \<open>c\<close> followed by the decimal digits of an ordinal, are ASCII
  literals such as \<open>''p4''\<close>, while the ids of the known figures, which the caller
  chooses, range over all strings. \<open>utf8_len c\<close> is the number of bytes of the code
  point whose encoding starts with the byte \<open>c\<close>, \<open>utf8_val\<close> the code point that a
  byte sequence encodes, \<open>code_points\<close> the decoded string and \<open>str_tail k\<close> the
  slice \<open>k[1:]\<close>.
\<close>

definition utf8_len :: "char \<Rightarrow> nat" where
  "utf8_len c =
     (let b = of_char c :: nat
      in if b < 192 then 1 else if b < 224 then 2 else if b < 240 then 3 else 4)"

definition utf8_val :: "string \<Rightarrow> nat" where
  "utf8_val bs =
     (case bs of
        [] \<Rightarrow> 0
      | c # cs \<Rightarrow>
          let b = of_char c :: nat;
              lead = (if b < 192 then b else if b < 224 then b - 192
                      else if b < 240 then b - 224 else b - 240)
          in foldl (\<lambda>a d. 64 * a + of_char d mod 64) lead cs)"

function code_points :: "string \<Rightarrow> nat list" where
  "code_points [] = []"
| "code_points (c # cs) =
     utf8_val (take (utf8_len c) (c # cs)) # code_points (drop (utf8_len c) (c # cs))"
  by pat_completeness auto
termination
  by (relation "measure length") (simp_all add: utf8_len_def Let_def)

definition str_tail :: "string \<Rightarrow> string" where
  "str_tail k = (case k of [] \<Rightarrow> [] | c # cs \<Rightarrow> drop (utf8_len c) (c # cs))"

text \<open>
  \<open>str.isdigit()\<close> holds for a non-empty string whose characters all have the
  Unicode property Numeric_Type = Decimal or Digit. \<open>int()\<close> converts the decimal
  ones only, in any script, and raises \<open>ValueError\<close> on a string that holds a digit
  that is not decimal, such as the superscript two U+00B2. The decimal digits of a
  script are ten consecutive code points; \<open>decimal_zeros\<close> lists the code point of
  the digit zero of each script and \<open>other_digits\<close> the ranges of the digits that are
  not decimal (Unicode 14.0.0, the character database of CPython 3.11).
\<close>

definition decimal_zeros :: "nat list" where
  "decimal_zeros =
     [48, 1632, 1776, 1984, 2406, 2534, 2662, 2790, 2918, 3046, 3174, 3302, 3430, 3558, 3664,
      3792, 3872, 4160, 4240, 6112, 6160, 6470, 6608, 6784, 6800, 6992, 7088, 7232, 7248,
      42528, 43216, 43264, 43472, 43504, 43600, 44016, 65296, 66720, 68912, 69734, 69872,
      69942, 70096, 70384, 70736, 70864, 71248, 71360, 71472, 71904, 72016, 72784, 73040,
      73120, 92768, 92864, 93008, 120782, 120792, 120802, 120812, 120822, 123200, 123632,
      125264, 130032]"

definition decimal_value :: "nat \<Rightarrow> nat option" where
  "decimal_value c = map_option (\<lambda>z. c - z) (find (\<lambda>z. z \<le> c \<and> c < z + 10) decimal_zeros)"

definition other_digits :: "(nat \<times> nat) list" where
  "other_digits =
     [(178, 179), (185, 185), (4969, 4977), (6618, 6618), (8304, 8304), (8308, 8313),
      (8320, 8329), (9312, 9320), (9332, 9340), (9352, 9360), (9450, 9450), (9461, 9469),
      (9471, 9471), (10102, 10110), (10112, 10120), (10122, 10130), (68160, 68163),
      (69216, 69224), (69714, 69722), (127232, 127242)]"

definition is_digit :: "nat \<Rightarrow> bool" where
  "is_digit c \<longleftrightarrow>
     decimal_value c \<noteq> None \<or> list_ex (\<lambda>(lo, hi). lo \<le> c \<and> c \<le> hi) other_digits"

definition isdigit :: "string \<Rightarrow> bool" where
  "isdigit s \<longleftrightarrow> s \<noteq> [] \<and> list_all is_digit (code_points s)"

text \<open>
  \<open>int(s)\<close> for a string that passes \<open>isdigit\<close> (the program converts no other
  string): the number that the decimal values of the characters spell, and \<open>None\<close>
  where \<open>int\<close> raises \<open>ValueError\<close>. Integers are unbounded; the guard of CPython
  against decimal strings of more than 4300 digits (\<open>sys.set_int_max_str_digits\<close>)
  is taken as lifted, here and in \<open>str_of_nat\<close>.
\<close>

datatype error = ValueError

definition int_of_str :: "string \<Rightarrow> nat option" where
  "int_of_str s =
     (let ds = map decimal_value (code_points s)
      in if s \<noteq> [] \<and> list_all (\<lambda>d. d \<noteq> None) ds
         then Some (foldl (\<lambda>a d. 10 * a + the d) 0 ds)
         else None)"

text \<open>\<open>str(n)\<close>, as the f-string \<open>f"{obj_type[0]}{obj_id_num}"\<close> formats the ordinal.\<close>

fun str_of_nat :: "nat \<Rightarrow> string" where
  "str_of_nat n =
     (if n < 10 then [''0123456789'' ! n]
      else str_of_nat (n div 10) @ [''0123456789'' ! (n mod 10)])"

declare str_of_nat.simps [simp del]

fun type_initial :: "obj_type \<Rightarrow> char" where
  "type_initial Point = CHR ''p''"
| "type_initial Line = CHR ''l''"
| "type_initial Circle = CHR ''c''"

text \<open>
  \<open>max([int(k[1:]) for k in d if k[1:].isdigit()] or [0]) + 1\<close>, the seed of a
  next-id counter in \<open>solve\<close>. The comprehension raises \<open>ValueError\<close> when \<open>int\<close>
  does.
\<close>

definition seed_next_id :: "'v pydict \<Rightarrow> error + nat" where
  "seed_next_id d =
     (let ordinals = map (\<lambda>k. int_of_str (str_tail k))
                       (filter (\<lambda>k. isdigit (str_tail k)) (dict_keys d))
      in if list_ex (\<lambda>v. v = None) ordinals then Inl ValueError
         else Inr (fold max (if ordinals = [] then [0] else map the ordinals) 0 + 1))"

text \<open>
  The state fingerprint: the three sorted sequences of canonical tuples (Python sorts
  tuples lexicographically). The constant tags \<open>'points'\<close>, \<open>'lines'\<close>,
  \<open>'circles'\<close> of the source are the positions of the triple.
\<close>

type_synonym state_hash = "point list \<times> line list \<times> circle list"

definition get_state_hash :: "objects \<Rightarrow> state_hash" where
  "get_state_hash current_objects =
     (let norm_points = sort (map normalize_point (dict_values (points current_objects)));
          norm_lines = sort (map normalize_line (dict_values (lines current_objects)));
          norm_circles = sort (map normalize_circle (dict_values (circles current_objects)))
      in (norm_points, norm_lines, norm_circles))"

section \<open>Heuristic (app/solver/heuristic.py)\<close>

text \<open>
  The target type is one of the three object types; the source's last line, which
  returns infinity for any other type string, has no counterpart here.
\<close>

definition calculate_heuristic :: "objects \<Rightarrow> obj_type \<Rightarrow> nat" where
  "calculate_heuristic current_objects target_object_type =
     (let num_points = length (points current_objects);
          num_lines = length (lines current_objects);
          num_circles = length (circles current_objects)
      in case target_object_type of
        Point \<Rightarrow>
          if num_lines \<ge> 2 \<or> num_circles \<ge> 2 \<or> (num_lines \<ge> 1 \<and> num_circles \<ge> 1) then 1
          else if num_points \<ge> 2 then
            (if num_points \<ge> 4 then 3
             else if num_points \<ge> 3 then 3
             else 3)
          else 5
      | Line \<Rightarrow> if num_points \<ge> 2 then 1 else 2
      | Circle \<Rightarrow> if num_points \<ge> 2 then 1 else 2)"

section \<open>Successor generator (app/solver/search.py)\<close>

text \<open>
  \<open>_add_object(current_objects, obj_type, obj_id_num, obj_data)\<close>: the object type
  and the data array arrive together as a \<^typ>\<open>figure\<close>. The three sub-mappings are
  copied, the new figure is compared canonically with every figure of its type, and
  it is stored under the id \<open>f"{obj_type[0]}{obj_id_num}"\<close> when none matches.
\<close>

fun add_object :: "objects \<Rightarrow> nat \<Rightarrow> figure \<Rightarrow> objects \<times> bool \<times> string option" where
  "add_object current_objects obj_id_num (PointData obj_data) =
     (if list_ex (\<lambda>existing_data. normalize_point existing_data = normalize_point obj_data)
           (dict_values (points current_objects))
      then (current_objects, False, None)
      else
        let new_id = type_initial Point # str_of_nat obj_id_num in
        (current_objects\<lparr>points := AList.update new_id obj_data (points current_objects)\<rparr>,
         True, Some new_id))"
| "add_object current_objects obj_id_num (LineData obj_data) =
     (if list_ex (\<lambda>existing_data. normalize_line existing_data = normalize_line obj_data)
           (dict_values (lines current_objects))
      then (current_objects, False, None)
      else
        let new_id = type_initial Line # str_of_nat obj_id_num in
        (current_objects\<lparr>lines := AList.update new_id obj_data (lines current_objects)\<rparr>,
         True, Some new_id))"
| "add_object current_objects obj_id_num (CircleData obj_data) =
     (if list_ex (\<lambda>existing_data. normalize_circle existing_data = normalize_circle obj_data)
           (dict_values (circles current_objects))
      then (current_objects, False, None)
      else
        let new_id = type_initial Circle # str_of_nat obj_id_num in
        (current_objects\<lparr>circles := AList.update new_id obj_data (circles current_objects)\<rparr>,
         True, Some new_id))"

text \<open>\<open>itertools.combinations(xs, 2)\<close> and \<open>itertools.permutations(xs, 2)\<close>.\<close>

fun combinations2 :: "'a list \<Rightarrow> ('a \<times> 'a) list" where
  "combinations2 [] = []"
| "combinations2 (x # xs) = map (Pair x) xs @ combinations2 xs"

definition permutations2 :: "'a list \<Rightarrow> ('a \<times> 'a) list" where
  "permutations2 xs =
     concat (map (\<lambda>i. map (\<lambda>j. (xs ! i, xs ! j)) (filter (\<lambda>j. j \<noteq> i) [0..<length xs]))
                 [0..<length xs])"

text \<open>The list of \<open>(op_type, item_ids)\<close> pairs, in the order the source builds it.\<close>

definition intersection_configs :: "objects \<Rightarrow> (string \<times> string \<times> string) list" where
  "intersection_configs objs =
     (if length (lines objs) \<ge> 2
      then map (Pair ''ll'') (combinations2 (dict_keys (lines objs))) else [])
     @ (if lines objs \<noteq> [] \<and> circles objs \<noteq> []
        then map (Pair ''lc'') (List.product (dict_keys (lines objs)) (dict_keys (circles objs)))
        else [])
     @ (if length (circles objs) \<ge> 2
        then map (Pair ''cc'') (combinations2 (dict_keys (circles objs))) else [])"

text \<open>The kernel call of one configuration.\<close>

definition intersect_config :: "objects \<Rightarrow> string \<times> string \<times> string \<Rightarrow> point list \<times> nat" where
  "intersect_config objs cfg =
     (case cfg of (op_type, a, b) \<Rightarrow>
        if op_type = ''ll''
        then intersect_line_line (getitem (lines objs) a) (getitem (lines objs) b)
        else if op_type = ''lc''
        then intersect_line_circle (getitem (lines objs) a) (getitem (circles objs) b)
        else intersect_circle_circle (getitem (circles objs) a) (getitem (circles objs) b))"

text \<open>
  The loop \<open>for i in range(count)\<close> over the rows of \<open>results\<close>. It threads
  \<open>obj_after_adds\<close>, \<open>added_new_point\<close>, \<open>new_point_ids\<close> and the counter
  \<open>points_generated_in_this_call\<close>; \<open>next_point\<close> is \<open>next_ids['point']\<close>.
\<close>

fun add_result_points ::
  "nat \<Rightarrow> point list \<Rightarrow> objects \<Rightarrow> bool \<Rightarrow> string list \<Rightarrow> nat
     \<Rightarrow> objects \<times> bool \<times> string list \<times> nat" where
  "add_result_points next_point [] obj_after_adds added_new_point new_point_ids generated =
     (obj_after_adds, added_new_point, new_point_ids, generated)"
| "add_result_points next_point (p_data # rest) obj_after_adds added_new_point new_point_ids
       generated =
     (case add_object obj_after_adds (next_point + generated) (PointData p_data) of
        (objs, is_new, new_id) \<Rightarrow>
          if is_new
          then add_result_points next_point rest objs True (new_point_ids @ [the new_id])
                 (generated + 1)
          else add_result_points next_point rest objs added_new_point new_point_ids generated)"

text \<open>
  One iteration of the loop over \<open>intersection_configs\<close>: the kernel call, the inner
  loop over the \<open>cnt\<close> result rows (\<open>cnt\<close> is the source's \<open>count\<close>), and the
  successor that is appended when a point was added. It returns the appended
  successors (none or one) and the new value of \<open>points_generated_in_this_call\<close>.
\<close>

definition config_step ::
  "objects \<Rightarrow> nat \<Rightarrow> string \<times> string \<times> string \<Rightarrow> nat \<Rightarrow> (objects \<times> step) list \<times> nat" where
  "config_step objs next_point cfg generated =
     (case intersect_config objs cfg of
        (results, cnt) \<Rightarrow>
          if cnt = 0 then ([], generated)
          else
            case add_result_points next_point (take cnt results) objs False [] generated of
              (obj_after_adds, added_new_point, new_point_ids, generated') \<Rightarrow>
                if added_new_point
                then ([(obj_after_adds,
                        \<lparr>operation = ''Intersection'', inputs = [fst (snd cfg), snd (snd cfg)],
                         output_type = Point, output_id = hd new_point_ids\<rparr>)],
                      generated')
                else ([], generated'))"

text \<open>The loop over \<open>intersection_configs\<close>, collecting what each iteration appends.\<close>

fun intersection_successors ::
  "objects \<Rightarrow> nat \<Rightarrow> (string \<times> string \<times> string) list \<Rightarrow> nat \<Rightarrow> (objects \<times> step) list" where
  "intersection_successors objs next_point [] generated = []"
| "intersection_successors objs next_point (cfg # cfgs) generated =
     (case config_step objs next_point cfg generated of
        (new_successors, generated') \<Rightarrow>
          new_successors @ intersection_successors objs next_point cfgs generated')"

definition line_successors :: "objects \<Rightarrow> nat \<Rightarrow> (objects \<times> step) list" where
  "line_successors objs next_line =
     (if length (points objs) \<ge> 2
      then concat (map (\<lambda>(p1_id, p2_id).
             let new_line_data = construct_line_from_points (getitem (points objs) p1_id)
                                   (getitem (points objs) p2_id)
             in case add_object objs next_line (LineData new_line_data) of
                  (new_objs, is_new, new_id) \<Rightarrow>
                    if is_new
                    then [(new_objs, \<lparr>operation = ''Line'', inputs = [p1_id, p2_id],
                                      output_type = Line, output_id = the new_id\<rparr>)]
                    else [])
           (combinations2 (dict_keys (points objs))))
      else [])"

definition circle_successors :: "objects \<Rightarrow> nat \<Rightarrow> (objects \<times> step) list" where
  "circle_successors objs next_circle =
     (if length (points objs) \<ge> 2
      then concat (map (\<lambda>(center_id, on_circ_id).
             let new_circle_data = construct_circle_from_points (getitem (points objs) center_id)
                                     (getitem (points objs) on_circ_id)
             in case add_object objs next_circle (CircleData new_circle_data) of
                  (new_objs, is_new, new_id) \<Rightarrow>
                    if is_new
                    then [(new_objs, \<lparr>operation = ''Circle'', inputs = [center_id, on_circ_id],
                                      output_type = Circle, output_id = the new_id\<rparr>)]
                    else [])
           (permutations2 (dict_keys (points objs))))
      else [])"

definition generate_successors :: "state \<Rightarrow> (objects \<times> step) list" where
  "generate_successors st =
     (case st of (objs, next_ids) \<Rightarrow>
        intersection_successors objs (next_ids Point) (intersection_configs objs) 0
        @ line_successors objs (next_ids Line)
        @ circle_successors objs (next_ids Circle))"

section \<open>Search engine (app/solver/search.py)\<close>

text \<open>
  The open list is a \<open>heapq\<close> of \<open>SearchNode\<close> tuples. \<open>heappop\<close> returns the
  least tuple; tuples are compared by \<open>priority\<close>, then by \<open>tie_breaker\<close>, and no two
  nodes of a run share a \<open>tie_breaker\<close>. The model keeps the nodes in a list (a push
  puts the node in front) and pops the least node. \<open>visited\<close> is a Python set that is
  only tested for membership and measured with \<open>len\<close>; it is a list here, extended
  only by hashes that are not yet members.
\<close>

definition MAX_OPEN_LIST_SIZE :: nat where
  "MAX_OPEN_LIST_SIZE = 150000"

record search_node =
  priority :: nat
  tie_breaker :: nat
  g_cost :: nat
  state :: state
  path :: "step list"

definition node_less :: "search_node \<Rightarrow> search_node \<Rightarrow> bool" where
  "node_less a b \<longleftrightarrow>
     priority a < priority b \<or> (priority a = priority b \<and> tie_breaker a < tie_breaker b)"

text \<open>
  \<open>heappop\<close> on the non-empty open list \<open>n # ns\<close> (the loop \<open>while open_list\<close> pops
  only then): the least node and the remaining nodes.
\<close>

fun heappop :: "search_node \<Rightarrow> search_node list \<Rightarrow> search_node \<times> search_node list" where
  "heappop n [] = (n, [])"
| "heappop n (m # ms) =
     (case heappop m ms of (least, rest) \<Rightarrow>
        if node_less least n then (least, n # rest) else (n, m # ms))"

definition is_goal :: "figure \<Rightarrow> figure \<Rightarrow> bool" where
  "is_goal target_definition newly_created =
     (if figure_type newly_created \<noteq> figure_type target_definition then False
      else norm_funcs newly_created = norm_funcs target_definition)"

text \<open>
  Lines 102-109 of search.py: the counters of the enqueued state, and the node that
  is pushed. The heuristic is finite for the three object types, so the test
  \<open>new_h == float('inf')\<close> never skips a successor. The output id of a step is
  \<open>p\<close>, \<open>l\<close> or \<open>c\<close> followed by \<open>str(n)\<close>, on which \<open>int\<close> does not raise
  (\<open>int_of_str_str_of_nat\<close>).
\<close>

definition advance_ids :: "next_ids \<Rightarrow> step \<Rightarrow> next_ids" where
  "advance_ids current_ids step_info =
     (let newly_created_type = output_type step_info;
          new_id_num = the (int_of_str (str_tail (output_id step_info)))
      in if new_id_num \<ge> current_ids newly_created_type
         then current_ids(newly_created_type := new_id_num + 1)
         else current_ids)"

definition child_node ::
  "obj_type \<Rightarrow> search_node \<Rightarrow> objects \<Rightarrow> step \<Rightarrow> nat \<Rightarrow> search_node" where
  "child_node target_type cur new_objects_state step_info counter =
     (let new_g = g_cost cur + 1;
          new_h = calculate_heuristic new_objects_state target_type;
          new_priority = new_g + new_h;
          new_ids = advance_ids (snd (state cur)) step_info;
          new_state = (new_objects_state, new_ids)
      in \<lparr>priority = new_priority, tie_breaker = counter, g_cost = new_g,
          state = new_state, path = path cur @ [step_info]\<rparr>)"

fun expand ::
  "figure \<Rightarrow> search_node \<Rightarrow> (objects \<times> step) list \<Rightarrow> search_node list \<Rightarrow> state_hash list \<Rightarrow> nat
     \<Rightarrow> (step list \<times> nat) + (search_node list \<times> state_hash list \<times> nat)" where
  "expand target cur [] open_list visited counter = Inr (open_list, visited, counter)"
| "expand target cur ((new_objects_state, step_info) # successors) open_list visited counter =
     (let new_state_hash = get_state_hash new_objects_state in
      if new_state_hash \<in> set visited then expand target cur successors open_list visited counter
      else if length open_list > MAX_OPEN_LIST_SIZE
      then expand target cur successors open_list visited counter
      else
        let visited = visited @ [new_state_hash];
            newly_created_data =
              lookup_figure new_objects_state (output_type step_info) (output_id step_info);
            new_path = path cur @ [step_info]
        in
        if is_goal target newly_created_data then Inl (new_path, length visited)
        else
          expand target cur successors
            (child_node (figure_type target) cur new_objects_state step_info counter # open_list)
            visited (counter + 1))"

lemma heappop_mset: "heappop n ns = (m, rest) \<Longrightarrow> mset (n # ns) = add_mset m (mset rest)"
  by (induction n ns arbitrary: m rest rule: heappop.induct) (auto split: prod.splits if_splits)

lemma g_cost_child_node [simp]: "g_cost (child_node t cur objs st c) = g_cost cur + 1"
  by (simp add: child_node_def Let_def)

lemma expand_pushes:
  "expand target cur succs open_list visited counter = Inr (open_list', visited', counter')
   \<Longrightarrow> \<exists>new. open_list' = new @ open_list \<and> (\<forall>n \<in> set new. g_cost n = g_cost cur + 1)"
proof (induction succs arbitrary: open_list visited counter)
  case Nil
  then show ?case by simp
next
  case (Cons a succs)
  obtain o1 s1 where a: "a = (o1, s1)" by (cases a)
  let ?h = "get_state_hash o1"
  show ?case
  proof (cases "?h \<in> set visited \<or> length open_list > MAX_OPEN_LIST_SIZE")
    case True
    with Cons.prems have "expand target cur succs open_list visited counter
        = Inr (open_list', visited', counter')"
      by (auto simp: a Let_def split: if_splits)
    then show ?thesis by (rule Cons.IH)
  next
    case False
    with Cons.prems have "expand target cur succs
        (child_node (figure_type target) cur o1 s1 counter # open_list)
        (visited @ [?h]) (counter + 1) = Inr (open_list', visited', counter')"
      by (auto simp: a Let_def split: if_splits)
    from Cons.IH [OF this] obtain new where
      "open_list' = new @ child_node (figure_type target) cur o1 s1 counter # open_list"
      "\<forall>n \<in> set new. g_cost n = g_cost cur + 1" by blast
    then have "open_list' = (new @ [child_node (figure_type target) cur o1 s1 counter]) @ open_list
      \<and> (\<forall>n \<in> set (new @ [child_node (figure_type target) cur o1 s1 counter]). g_cost n = g_cost cur + 1)"
      by simp
    then show ?thesis by blast
  qed
qed

lemma search_measure_pop:
  fixes f :: "search_node \<Rightarrow> nat"
  assumes "open_list = n # ns" and "heappop n ns = (cur, rest)"
  shows "(mset (map f rest), mset (map f open_list)) \<in> mult {(a, b). a < b}"
proof -
  from heappop_mset [OF assms(2)] assms(1) have "mset open_list = add_mset cur (mset rest)"
    by simp
  from arg_cong [OF this, of "image_mset f"]
  have m: "mset (map f open_list) = mset (map f rest) + {#f cur#}" by simp
  have "(mset (map f rest) + {#}, mset (map f rest) + {#f cur#}) \<in> mult {(a, b). a < b}"
    by (rule one_step_implies_mult) auto
  then show ?thesis using m by simp
qed

lemma search_measure_expand:
  assumes "open_list = n # ns" and "heappop n ns = (cur, rest)"
    and g: "\<not> max_steps \<le> int (g_cost cur)"
    and ex: "expand target cur succs rest visited counter = Inr (open_list', visited', counter')"
  shows "(mset (map (\<lambda>n. nat (max_steps - int (g_cost n))) open_list'),
          mset (map (\<lambda>n. nat (max_steps - int (g_cost n))) open_list))
         \<in> mult {(a, b). a < b}"
proof -
  let ?f = "\<lambda>n. nat (max_steps - int (g_cost n))"
  from heappop_mset [OF assms(2)] assms(1) have "mset open_list = add_mset cur (mset rest)"
    by simp
  from arg_cong [OF this, of "image_mset ?f"]
  have m: "mset (map ?f open_list) = mset (map ?f rest) + {#?f cur#}" by simp
  from expand_pushes [OF ex] obtain new where
    new: "open_list' = new @ rest" "\<forall>n \<in> set new. g_cost n = g_cost cur + 1" by blast
  have "(mset (map ?f rest) + mset (map ?f new), mset (map ?f rest) + {#?f cur#})
      \<in> mult {(a, b). a < b}"
    using new(2) g by (intro one_step_implies_mult) auto
  then show ?thesis using m new(1) by (simp add: add.commute)
qed

function search ::
  "figure \<Rightarrow> int \<Rightarrow> search_node list \<Rightarrow> state_hash list \<Rightarrow> nat \<Rightarrow> step list option \<times> nat" where
  "search target max_steps open_list visited counter =
     (case open_list of
        [] \<Rightarrow> (None, length visited)
      | n # ns \<Rightarrow>
          (case heappop n ns of (cur, rest) \<Rightarrow>
             if int (g_cost cur) \<ge> max_steps then search target max_steps rest visited counter
             else
               (case expand target cur (generate_successors (state cur)) rest visited counter of
                  Inl (new_path, stats) \<Rightarrow> (Some new_path, stats)
                | Inr (open_list', visited', counter') \<Rightarrow>
                    search target max_steps open_list' visited' counter')))"
  by pat_completeness auto
termination
proof (relation "inv_image (mult {(a, b). a < b})
    (\<lambda>(target, max_steps, open_list, visited, counter).
       mset (map (\<lambda>n. nat (max_steps - int (g_cost n))) open_list))", goal_cases)
  case 1
  show ?case by (intro wf_inv_image wf_mult) (simp add: wf_less)
next
  case (2 target max_steps open_list visited counter n ns cur rest)
  then show ?case using search_measure_pop [of open_list n ns cur rest] by simp
next
  case (3 target max_steps open_list visited counter n ns cur rest b open_list' ya visited'
      counter')
  then have "expand target cur (generate_successors (state cur)) rest visited counter
      = Inr (open_list', visited', counter')" and "heappop n ns = (cur, rest)"
    by simp_all
  with 3 show ?case
    using search_measure_expand [of open_list n ns cur rest max_steps target
        "generate_successors (state cur)" visited counter open_list' visited' counter']
    by auto
qed

text \<open>
  The seeded counters (the dictionary \<open>initial_ids\<close>; evaluating it raises when one
  of the three seeds does), the node pushed before the main loop (\<open>seeded_ids\<close> is
  the value of \<open>initial_ids\<close>), and \<open>solve\<close>,
  which returns \<open>Inl ValueError\<close> where the source raises and \<open>Inr\<close> of the pair
  \<open>(path, states_explored)\<close> where it returns.
\<close>

definition initial_ids :: "objects \<Rightarrow> error + next_ids" where
  "initial_ids initial_objects =
     (case seed_next_id (points initial_objects) of
        Inl e \<Rightarrow> Inl e
      | Inr point_seed \<Rightarrow>
          (case seed_next_id (lines initial_objects) of
             Inl e \<Rightarrow> Inl e
           | Inr line_seed \<Rightarrow>
               (case seed_next_id (circles initial_objects) of
                  Inl e \<Rightarrow> Inl e
                | Inr circle_seed \<Rightarrow>
                    Inr (\<lambda>t. case t of
                           Point \<Rightarrow> point_seed | Line \<Rightarrow> line_seed | Circle \<Rightarrow> circle_seed))))"

definition initial_node :: "objects \<Rightarrow> next_ids \<Rightarrow> figure \<Rightarrow> search_node" where
  "initial_node initial_objects seeded_ids target_definition =
     (let initial_state = (initial_objects, seeded_ids);
          target_type = figure_type target_definition;
          g = 0;
          h_cost = calculate_heuristic initial_objects target_type
      in \<lparr>priority = g + h_cost, tie_breaker = 0, g_cost = g,
          state = initial_state, path = []\<rparr>)"

definition solve :: "objects \<Rightarrow> figure \<Rightarrow> int \<Rightarrow> error + (step list option \<times> nat)" where
  "solve initial_objects target_definition max_steps =
     (case initial_ids initial_objects of
        Inl e \<Rightarrow> Inl e
      | Inr seeded_ids \<Rightarrow>
          let initial_hash = get_state_hash initial_objects
          in Inr (search target_definition max_steps
                    [initial_node initial_objects seeded_ids target_definition]
                    [initial_hash] 1))"

declare search.simps [simp del]

section \<open>Predicates and inputs of the claims\<close>

text \<open>
  The invariant of C2: every decimal ordinal carried by an id of a sub-mapping lies
  below that type's next-id counter. The ordinal of an id is read as \<open>solve\<close> reads
  it when it seeds the counters (\<open>int(k[1:])\<close> when \<open>k[1:].isdigit()\<close> and
  \<open>int\<close> does not raise).
\<close>

definition ordinals_below :: "'v pydict \<Rightarrow> nat \<Rightarrow> bool" where
  "ordinals_below d n \<longleftrightarrow>
     list_all (\<lambda>k. isdigit (str_tail k) \<longrightarrow>
                 (case int_of_str (str_tail k) of None \<Rightarrow> True | Some v \<Rightarrow> v < n))
       (dict_keys d)"

definition counters_above_ids :: "state \<Rightarrow> bool" where
  "counters_above_ids st \<longleftrightarrow>
     ordinals_below (points (fst st)) (snd st Point)
     \<and> ordinals_below (lines (fst st)) (snd st Line)
     \<and> ordinals_below (circles (fst st)) (snd st Circle)"

text \<open>
  The ids on which seeding a counter raises: the tail passes \<open>isdigit\<close> and \<open>int\<close>
  rejects it.
\<close>

definition seed_raises :: "'v pydict \<Rightarrow> bool" where
  "seed_raises d \<longleftrightarrow>
     list_ex (\<lambda>k. isdigit (str_tail k) \<and> int_of_str (str_tail k) = None) (dict_keys d)"

definition solve_raises :: "objects \<Rightarrow> bool" where
  "solve_raises initial_objects \<longleftrightarrow>
     seed_raises (points initial_objects) \<or> seed_raises (lines initial_objects)
     \<or> seed_raises (circles initial_objects)"

text \<open>The canonical-form test of \<open>_add_object\<close>, and the store it performs.\<close>

fun canon_present :: "figure \<Rightarrow> objects \<Rightarrow> bool" where
  "canon_present (PointData d) objs =
     list_ex (\<lambda>e. normalize_point e = normalize_point d) (dict_values (points objs))"
| "canon_present (LineData d) objs =
     list_ex (\<lambda>e. normalize_line e = normalize_line d) (dict_values (lines objs))"
| "canon_present (CircleData d) objs =
     list_ex (\<lambda>e. normalize_circle e = normalize_circle d) (dict_values (circles objs))"

fun store_figure :: "objects \<Rightarrow> string \<Rightarrow> figure \<Rightarrow> objects" where
  "store_figure objs k (PointData d) = objs\<lparr>points := AList.update k d (points objs)\<rparr>"
| "store_figure objs k (LineData d) = objs\<lparr>lines := AList.update k d (lines objs)\<rparr>"
| "store_figure objs k (CircleData d) = objs\<lparr>circles := AList.update k d (circles objs)\<rparr>"

fun figures_of :: "objects \<Rightarrow> obj_type \<Rightarrow> figure list" where
  "figures_of objs Point = map PointData (dict_values (points objs))"
| "figures_of objs Line = map LineData (dict_values (lines objs))"
| "figures_of objs Circle = map CircleData (dict_values (circles objs))"

fun keys_of :: "objects \<Rightarrow> obj_type \<Rightarrow> string set" where
  "keys_of objs Point = fst ` set (points objs)"
| "keys_of objs Line = fst ` set (lines objs)"
| "keys_of objs Circle = fst ` set (circles objs)"

text \<open>
  The value of \<open>points_generated_in_this_call\<close> after the loop over the
  intersection configurations has run through \<open>cfgs\<close>, and the successors that the
  iteration of the \<open>i\<close>-th configuration appends in a call of
  \<open>generate_successors\<close>.
\<close>

fun generated_after ::
  "objects \<Rightarrow> nat \<Rightarrow> (string \<times> string \<times> string) list \<Rightarrow> nat \<Rightarrow> nat" where
  "generated_after objs next_point [] generated = generated"
| "generated_after objs next_point (cfg # cfgs) generated =
     generated_after objs next_point cfgs (snd (config_step objs next_point cfg generated))"

definition pair_successors :: "state \<Rightarrow> nat \<Rightarrow> (objects \<times> step) list" where
  "pair_successors st i =
     (case st of (objs, next_ids) \<Rightarrow>
        fst (config_step objs (next_ids Point) (intersection_configs objs ! i)
               (generated_after objs (next_ids Point) (take i (intersection_configs objs)) 0)))"

text \<open>
  C10 as a predicate on a state's objects and one successor: every \<open>(id, figure)\<close>
  pair is kept, the sub-mappings of the other two types are unchanged, and the
  successor holds a figure of the step's output type whose canonical form the state
  does not have.
\<close>

definition successor_grows :: "objects \<Rightarrow> objects \<times> step \<Rightarrow> bool" where
  "successor_grows objs succ \<longleftrightarrow>
     (case succ of (new_state, st) \<Rightarrow>
        map_of (points objs) \<subseteq>\<^sub>m map_of (points new_state)
      \<and> map_of (lines objs) \<subseteq>\<^sub>m map_of (lines new_state)
      \<and> map_of (circles objs) \<subseteq>\<^sub>m map_of (circles new_state)
      \<and> (output_type st \<noteq> Point \<longrightarrow> points new_state = points objs)
      \<and> (output_type st \<noteq> Line \<longrightarrow> lines new_state = lines objs)
      \<and> (output_type st \<noteq> Circle \<longrightarrow> circles new_state = circles objs)
      \<and> (\<exists>f \<in> set (figures_of new_state (output_type st)). \<not> canon_present f objs))"

text \<open>
  The knowns \<open>p1 = (0, 0)\<close>, \<open>p2 = (2, 0)\<close> and the line \<open>l1\<close> through them
  (\<open>y = 0\<close>, as \<open>construct_line_from_points\<close> builds it).
\<close>

definition two_points_one_line :: objects where
  "two_points_one_line =
     \<lparr>points = [(''p1'', (0, 0)), (''p2'', (2, 0))], lines = [(''l1'', (0, 2, 0))], circles = []\<rparr>"

text \<open>The counters that \<open>solve\<close> seeds on these knowns: one past the ordinals \<open>p2\<close>, \<open>l1\<close>.\<close>

definition seeds_3_2_1 :: next_ids where
  "seeds_3_2_1 = (\<lambda>t. case t of Point \<Rightarrow> 3 | Line \<Rightarrow> 2 | Circle \<Rightarrow> 1)"

text \<open>
  Three known points, the line \<open>l1\<close> through \<open>p1\<close> and \<open>p3\<close> (the line \<open>x = 0\<close>) and
  the circle \<open>c1\<close> about \<open>p1\<close> through \<open>p2\<close>, built as \<open>app/api/main.py\<close> builds
  known lines and circles. \<open>l1\<close> meets \<open>c1\<close> in \<open>(0, -3)\<close> and \<open>(0, 3)\<close>, both new.
\<close>

definition two_new_points_input :: objects where
  "two_new_points_input =
     \<lparr>points = [(''p1'', (0, 0)), (''p2'', (3, 0)), (''p3'', (0, 4))],
      lines = [(''l1'', construct_line_from_points (0, 0) (0, 4))],
      circles = [(''c1'', construct_circle_from_points (0, 0) (3, 0))]\<rparr>"

text \<open>
  The counters that \<open>solve\<close> seeds on knowns with the ids \<open>p1\<close>, \<open>p2\<close>, \<open>p3\<close>,
  \<open>l1\<close> and \<open>c1\<close>.
\<close>

definition seeds_4_2_2 :: next_ids where
  "seeds_4_2_2 = (\<lambda>t. case t of Point \<Rightarrow> 4 | Line \<Rightarrow> 2 | Circle \<Rightarrow> 2)"

text \<open>
  The state that a run on that input reaches after the steps
  \<open>Intersection(l1, c1)\<close> and \<open>Line(p1, p2)\<close>: the first step stored \<open>p4\<close> and
  \<open>p5\<close> and left the point counter at 5.
\<close>

definition reused_id_state :: state where
  "reused_id_state =
     (\<lparr>points = [(''p1'', (0, 0)), (''p2'', (3, 0)), (''p3'', (0, 4)), (''p4'', (0, - 3)),
                 (''p5'', (0, 3))],
       lines = [(''l1'', (- 4, 0, 0)), (''l2'', (0, 3, 0))],
       circles = [(''c1'', (0, 0, 9))]\<rparr>,
      (\<lambda>t. case t of Point \<Rightarrow> 5 | Line \<Rightarrow> 3 | Circle \<Rightarrow> 2))"

text \<open>
  Knowns in which both intersection points of \<open>l1\<close> and \<open>c1\<close> are given points:
  \<open>l1\<close> is the line through \<open>p1\<close> and \<open>p2\<close>, \<open>c1\<close> the circle about \<open>p3\<close> through
  \<open>p2\<close>.
\<close>

definition both_points_present :: objects where
  "both_points_present =
     \<lparr>points = [(''p1'', (- 1, 0)), (''p2'', (1, 0)), (''p3'', (0, 0))],
      lines = [(''l1'', construct_line_from_points (- 1, 0) (1, 0))],
      circles = [(''c1'', construct_circle_from_points (0, 0) (1, 0))]\<rparr>"

text \<open>
  One known point whose id is \<open>p\<close> followed by the superscript two U+00B2 (the bytes
  C2 B2 in UTF-8): \<open>k[1:].isdigit()\<close> holds and \<open>int(k[1:])\<close> raises.
\<close>

definition superscript_id :: objects where
  "superscript_id = \<lparr>points = [([CHR ''p'', CHR 0xC2, CHR 0xB2], (3, 4))], lines = [], circles = []\<rparr>"



text \<open>The tie-breakers of the open list are pairwise distinct and below the counter.\<close>

definition tie_breakers_fresh :: "search_node list \<Rightarrow> nat \<Rightarrow> bool" where
  "tie_breakers_fresh open_list counter \<longleftrightarrow>
     distinct (map tie_breaker open_list) \<and> list_all (\<lambda>n. tie_breaker n < counter) open_list"

section \<open>Evaluation on concrete inputs\<close>

text \<open>The defining equations that the simplifier unfolds to run the model on a literal input.\<close>

lemmas eval_defs = solve_def initial_node_def initial_ids_def seed_next_id_def dict_keys_def
  dict_values_def isdigit_def is_digit_def int_of_str_def decimal_value_def decimal_zeros_def
  other_digits_def str_tail_def utf8_len_def utf8_val_def calculate_heuristic_def
  get_state_hash_def normalize_point_def normalize_line_def normalize_circle_def py_round_def
  rint_def HASH_PRECISION_def generate_successors_def intersection_configs_def
  line_successors_def circle_successors_def permutations2_def intersect_config_def getitem_def
  config_step_def intersect_line_line_def intersect_line_circle_def intersect_circle_circle_def
  EPSILON_def construct_line_from_points_def construct_circle_from_points_def is_goal_def
  child_node_def advance_ids_def MAX_OPEN_LIST_SIZE_def node_less_def str_of_nat.simps
  search.simps Let_def

lemma sqrt_9: "sqrt 9 = 3" by (rule real_sqrt_unique) simp_all
lemma sqrt_16: "sqrt 16 = 4" by (rule real_sqrt_unique) simp_all
lemma sqrt_25: "sqrt 25 = 5" by (rule real_sqrt_unique) simp_all

lemma initial_ids_two_points_one_line: "initial_ids two_points_one_line = Inr seeds_3_2_1"
  by (simp add: eval_defs two_points_one_line_def seeds_3_2_1_def fun_eq_iff
        split: obj_type.splits)

lemma initial_ids_two_new_points_input: "initial_ids two_new_points_input = Inr seeds_4_2_2"
  by (simp add: eval_defs two_new_points_input_def seeds_4_2_2_def fun_eq_iff
        split: obj_type.splits)

lemma initial_ids_both_points_present: "initial_ids both_points_present = Inr seeds_4_2_2"
  by (simp add: eval_defs both_points_present_def seeds_4_2_2_def fun_eq_iff
        split: obj_type.splits)

section \<open>Ids and the store\<close>

lemma digit_cases:
  assumes "d < (10::nat)"
  obtains "d = 0" | "d = 1" | "d = 2" | "d = 3" | "d = 4" | "d = 5" | "d = 6" | "d = 7"
    | "d = 8" | "d = 9"
proof -
  from assms have "d = 0 \<or> d = 1 \<or> d = 2 \<or> d = 3 \<or> d = 4 \<or> d = 5 \<or> d = 6 \<or> d = 7
      \<or> d = 8 \<or> d = 9"
    by presburger
  with that show thesis by blast
qed

lemma code_points_ascii:
  "\<forall>c \<in> set s. (of_char c :: nat) < 128 \<Longrightarrow> code_points s = map of_char s"
  by (induction s) (simp_all add: utf8_len_def utf8_val_def)

lemma digit_nth_ascii: "d < 10 \<Longrightarrow> (of_char (''0123456789'' ! d) :: nat) = 48 + d"
  by (erule digit_cases) simp_all

lemma decimal_value_ascii: "d < 10 \<Longrightarrow> decimal_value (48 + d) = Some d"
  by (simp add: decimal_value_def decimal_zeros_def)

lemma str_of_nat_digits:
  "str_of_nat n \<noteq> [] \<and> (\<forall>c \<in> set (str_of_nat n). \<exists>d < 10. (of_char c :: nat) = 48 + d)"
proof (induction n rule: str_of_nat.induct)
  case (1 n)
  show ?case
  proof (cases "n < 10")
    case True
    then have e: "str_of_nat n = [''0123456789'' ! n]" by (subst str_of_nat.simps) simp
    from True show ?thesis unfolding e using digit_nth_ascii [of n] by auto
  next
    case False
    then have e: "str_of_nat n = str_of_nat (n div 10) @ [''0123456789'' ! (n mod 10)]"
      by (subst str_of_nat.simps) simp
    from False "1.IH"
    have "\<forall>c \<in> set (str_of_nat (n div 10)). \<exists>d < 10. (of_char c :: nat) = 48 + d"
      by simp
    moreover have "(of_char (''0123456789'' ! (n mod 10)) :: nat) = 48 + n mod 10"
      by (rule digit_nth_ascii) simp
    moreover have "n mod 10 < 10" by simp
    ultimately show ?thesis unfolding e by auto
  qed
qed

lemma code_points_str_of_nat: "code_points (str_of_nat n) = map of_char (str_of_nat n)"
  using str_of_nat_digits [of n] by (intro code_points_ascii) auto

lemma digits_str_of_nat:
  "\<forall>c \<in> set (code_points (str_of_nat n)). \<exists>d < 10. c = 48 + d"
  using str_of_nat_digits [of n] by (auto simp: code_points_str_of_nat)

lemma isdigit_str_of_nat: "isdigit (str_of_nat n)"
  using str_of_nat_digits [of n] digits_str_of_nat [of n]
  by (auto simp: isdigit_def is_digit_def list_all_iff decimal_value_ascii)

lemma spelled_str_of_nat:
  "foldl (\<lambda>a d. 10 * a + the d) 0 (map decimal_value (code_points (str_of_nat n))) = n"
proof (induction n rule: str_of_nat.induct)
  case (1 n)
  show ?case
  proof (cases "n < 10")
    case True
    then have "str_of_nat n = [''0123456789'' ! n]" by (subst str_of_nat.simps) simp
    with True show ?thesis
      using code_points_str_of_nat [of n] by (simp add: digit_nth_ascii decimal_value_ascii)
  next
    case False
    then have e: "str_of_nat n = str_of_nat (n div 10) @ [''0123456789'' ! (n mod 10)]"
      by (subst str_of_nat.simps) simp
    from False "1.IH"
    have ih: "foldl (\<lambda>a d. 10 * a + the d) 0
        (map decimal_value (map of_char (str_of_nat (n div 10)))) = n div 10"
      by (simp add: code_points_str_of_nat)
    have "(of_char (''0123456789'' ! (n mod 10)) :: nat) = 48 + n mod 10"
      by (rule digit_nth_ascii) simp
    then have "map decimal_value (code_points (str_of_nat n))
        = map decimal_value (map of_char (str_of_nat (n div 10))) @ [Some (n mod 10)]"
      using code_points_str_of_nat [of n] by (simp add: e decimal_value_ascii)
    then show ?thesis using ih by simp
  qed
qed

lemma int_of_str_str_of_nat: "int_of_str (str_of_nat n) = Some n"
proof -
  have "list_all (\<lambda>d. d \<noteq> None) (map decimal_value (code_points (str_of_nat n)))"
    using digits_str_of_nat [of n] by (auto simp: list_all_iff decimal_value_ascii)
  then show ?thesis
    using str_of_nat_digits [of n] by (simp add: int_of_str_def spelled_str_of_nat)
qed

lemma str_of_nat_inject: "str_of_nat m = str_of_nat n \<Longrightarrow> m = n"
  by (metis int_of_str_str_of_nat option.inject)

lemma str_tail_initial [simp]: "str_tail (type_initial t # s) = s"
  by (cases t) (simp_all add: str_tail_def utf8_len_def)

text \<open>Under the invariant, an id formatted from an ordinal at or past the counter is not a key.\<close>

lemma fresh_id:
  assumes "ordinals_below d n" and "n \<le> m"
  shows "type_initial t # str_of_nat m \<notin> fst ` set d"
proof
  assume "type_initial t # str_of_nat m \<in> fst ` set d"
  then have "type_initial t # str_of_nat m \<in> set (dict_keys d)" by (simp add: dict_keys_def)
  with assms(1) have "isdigit (str_tail (type_initial t # str_of_nat m)) \<longrightarrow>
      (case int_of_str (str_tail (type_initial t # str_of_nat m)) of
         None \<Rightarrow> True | Some v \<Rightarrow> v < n)"
    unfolding ordinals_below_def list_all_iff by blast
  then have "m < n" by (simp add: isdigit_str_of_nat int_of_str_str_of_nat)
  with assms(2) show False by simp
qed


lemma add_object_eq:
  "add_object objs n fig =
     (if canon_present fig objs then (objs, False, None)
      else (store_figure objs (type_initial (figure_type fig) # str_of_nat n) fig, True,
            Some (type_initial (figure_type fig) # str_of_nat n)))"
  by (cases fig) (simp_all add: Let_def)

lemma update_value_present: "v \<in> snd ` set (AList.update k v al)"
  by (induction al) auto

lemma store_figure_grows:
  assumes "k \<notin> keys_of objs (figure_type fig)"
  shows "map_of (points objs) \<subseteq>\<^sub>m map_of (points (store_figure objs k fig))"
    and "map_of (lines objs) \<subseteq>\<^sub>m map_of (lines (store_figure objs k fig))"
    and "map_of (circles objs) \<subseteq>\<^sub>m map_of (circles (store_figure objs k fig))"
  using assms
  by (cases fig; simp add: update_conv' map_le_def domIff map_of_eq_None_iff)+

lemma store_figure_frame:
  "figure_type fig \<noteq> Point \<Longrightarrow> points (store_figure objs k fig) = points objs"
  "figure_type fig \<noteq> Line \<Longrightarrow> lines (store_figure objs k fig) = lines objs"
  "figure_type fig \<noteq> Circle \<Longrightarrow> circles (store_figure objs k fig) = circles objs"
  by (cases fig; simp)+

lemma store_figure_present:
  "fig \<in> set (figures_of (store_figure objs k fig) (figure_type fig))"
  by (cases fig) (simp_all add: dict_values_def update_value_present image_image [symmetric])


lemma canon_present_point_iff:
  "canon_present (PointData q) objs
   \<longleftrightarrow> (\<exists>v \<in> set (dict_values (points objs)). normalize_point v = normalize_point q)"
  by (simp add: list_ex_iff)

lemma canon_present_stored:
  "canon_present (PointData q) (store_figure objs k (PointData q))"
proof -
  have "q \<in> set (dict_values (AList.update k q (points objs)))"
    using update_value_present [of q k "points objs"] by (simp add: dict_values_def)
  then show ?thesis unfolding canon_present_point_iff by auto
qed

lemma canon_present_stored_twice:
  assumes "k \<noteq> k'"
  shows "canon_present (PointData q)
           (store_figure (store_figure objs k (PointData q)) k' (PointData q'))"
proof -
  have "map_of (AList.update k' q' (AList.update k q (points objs))) k = Some q"
    using assms by (simp add: update_conv')
  then have "(k, q) \<in> set (AList.update k' q' (AList.update k q (points objs)))"
    by (rule map_of_SomeD)
  then have "q \<in> set (dict_values (AList.update k' q' (AList.update k q (points objs))))"
    unfolding dict_values_def set_map by (rule rev_image_eqI) simp
  then show ?thesis unfolding canon_present_point_iff by auto
qed

section \<open>Rounding\<close>

lemma rint_of_int: "rint (of_int k) = k"
  by (simp add: rint_def)

lemma rint_upper: "of_int (rint y) \<le> y + 1 / 2"
  unfolding rint_def Let_def by (auto; linarith)

lemma rint_lower: "y - 1 / 2 \<le> of_int (rint y)"
  unfolding rint_def Let_def by (auto; linarith)







section \<open>Binary64 rounding\<close>

lemma pow2_pos: "0 < pow2 k" by (simp add: pow2_def)

lemma pow2_powr: "pow2 k = 2 powr (of_int k)"
proof (cases "0 \<le> k")
  case True
  then show ?thesis by (simp add: pow2_def powr_realpow [symmetric])
next
  case False
  then have "(2::real) powr (of_int k) = 1 / 2 powr (of_int (- k))"
    by (simp add: powr_minus_divide)
  also have "\<dots> = 1 / 2 ^ nat (- k)" using False by (simp add: powr_realpow [symmetric])
  finally show ?thesis using False by (simp add: pow2_def)
qed

lemma floor_log2:
  assumes "pow2 e \<le> \<bar>x\<bar>" and "\<bar>x\<bar> < pow2 (e + 1)"
  shows "\<lfloor>log 2 \<bar>x\<bar>\<rfloor> = e"
proof -
  from assms(1) pow2_pos [of e] have pos: "0 < \<bar>x\<bar>" by linarith
  have "2 powr (of_int e) \<le> \<bar>x\<bar>" "\<bar>x\<bar> < 2 powr (of_int (e + 1))"
    using assms by (simp_all add: pow2_powr)
  then have "of_int e \<le> log 2 \<bar>x\<bar>" "log 2 \<bar>x\<bar> < of_int (e + 1)"
    using pos by (simp_all add: le_log_iff log_less_iff)
  then show ?thesis by linarith
qed

lemma rint_abs_le:
  assumes "\<bar>t\<bar> \<le> of_int n"
  shows "\<bar>rint t\<bar> \<le> n"
proof -
  from rint_upper [of t] assms have "real_of_int (rint t) \<le> of_int n + 1 / 2" by linarith
  then have "real_of_int (rint t) < of_int (n + 1)" by simp
  then have u: "rint t \<le> n" by linarith
  from rint_lower [of t] assms have "- of_int n - 1 / 2 \<le> real_of_int (rint t)" by linarith
  then have "real_of_int (- n - 1) < of_int (rint t)" by simp
  then have "- n \<le> rint t" by linarith
  with u show ?thesis by linarith
qed

lemma pow2_add: "pow2 (a + b) = pow2 a * pow2 b"
  by (simp add: pow2_powr powr_add)

lemma pow2_mono: "a \<le> b \<Longrightarrow> pow2 a \<le> pow2 b"
  by (simp add: pow2_powr)

lemma pow2_strict_mono: "a < b \<Longrightarrow> pow2 a < pow2 b"
  by (simp add: pow2_powr)

lemma pow2_53: "pow2 53 = of_int (2 ^ 53)"
  by (simp add: pow2_def)

lemma round64_normal:
  assumes "pow2 e \<le> \<bar>x\<bar>" and "\<bar>x\<bar> < pow2 (e + 1)" and "- 1022 \<le> e" and "e \<le> 1022"
  shows "round64 x = Fin (of_int (rint (x / pow2 (e - 52))) * pow2 (e - 52))"
proof -
  let ?q = "pow2 (e - 52)"
  let ?y = "of_int (rint (x / ?q)) * ?q"
  from assms(1) pow2_pos [of e] have nz: "x \<noteq> 0" by auto
  have fl: "\<lfloor>log 2 \<bar>x\<bar>\<rfloor> = e" using assms(1,2) by (rule floor_log2)
  have q: "pow2 (e + 1) = of_int (2 ^ 53) * ?q"
    using pow2_add [of 53 "e - 52"] by (simp add: pow2_53 add.commute)
  have "\<bar>x / ?q\<bar> \<le> of_int (2 ^ 53)"
    using assms(2) pow2_pos [of "e - 52"] unfolding q by (simp add: field_simps)
  then have "\<bar>rint (x / ?q)\<bar> \<le> 2 ^ 53" by (rule rint_abs_le)
  then have "\<bar>real_of_int (rint (x / ?q))\<bar> \<le> of_int (2 ^ 53)"
    by (metis of_int_abs of_int_le_iff)
  then have "\<bar>?y\<bar> \<le> pow2 (e + 1)"
    unfolding q abs_mult using pow2_pos [of "e - 52"] by (simp add: mult_right_mono)
  also have "\<dots> \<le> pow2 1023" using assms(4) by (intro pow2_mono) simp
  also have "\<dots> < 2 ^ 1024" by (simp add: pow2_def)
  finally have "\<not> 2 ^ 1024 \<le> \<bar>?y\<bar>" by simp
  then show ?thesis using nz fl assms(3) by (simp add: round64_def Let_def max_def)
qed

lemma rint_neg: "rint (- y) = - rint y"
proof (cases "y = of_int \<lfloor>y\<rfloor>")
  case True
  then obtain k where "y = of_int k" ..
  then show ?thesis
    using rint_of_int [of k] rint_of_int [of "- k"] by simp
next
  case False
  then have c: "\<lceil>y\<rceil> = \<lfloor>y\<rfloor> + 1" by (simp add: ceiling_altdef)
  have f: "\<lfloor>- y\<rfloor> = - \<lfloor>y\<rfloor> - 1" using c by (simp add: floor_minus)
  have d: "- y - of_int \<lfloor>- y\<rfloor> = 1 - (y - of_int \<lfloor>y\<rfloor>)" by (simp add: f)
  show ?thesis
    unfolding rint_def Let_def d unfolding f
    by (auto simp: field_simps)
qed

lemma round64_neg: "round64 (- x) = fneg (round64 x)"
  by (auto simp: round64_def Let_def rint_neg)

lemma fneg_fneg [simp]: "fneg (fneg a) = a"
  by (cases a) simp_all

lemma fmul_fneg_right: "fmul a (fneg b) = fneg (fmul a b)"
  by (cases a; cases b) (auto simp: round64_neg)

lemma fadd_commute: "fadd a b = fadd b a"
  by (cases a; cases b) (simp_all add: add.commute)

lemma fsub_fneg_fneg: "fsub (fneg a) (fneg b) = fsub b a"
  by (simp add: fsub_def fadd_commute)

lemma round64_eval:
  assumes "pow2 e \<le> \<bar>x\<bar>" and "\<bar>x\<bar> < pow2 (e + 1)" and "e \<le> 1022"
  shows "round64 x = Fin (of_int (rint (x / pow2 (max e (- 1022) - 52)))
                           * pow2 (max e (- 1022) - 52))"
proof (cases "- 1022 \<le> e")
  case True
  with round64_normal [OF assms(1,2) True assms(3)] show ?thesis by (simp add: max_def)
next
  case False
  let ?q = "pow2 (- 1074)"
  let ?y = "of_int (rint (x / ?q)) * ?q"
  from assms(1) pow2_pos [of e] have nz: "x \<noteq> 0" by auto
  have fl: "\<lfloor>log 2 \<bar>x\<bar>\<rfloor> = e" using assms(1,2) by (rule floor_log2)
  from False have "pow2 (e + 1) \<le> pow2 (- 1022)" by (intro pow2_mono) simp
  with assms(2) have "\<bar>x\<bar> < pow2 (- 1022)" by simp
  also have "pow2 (- 1022) = of_int (2 ^ 52) * ?q"
    using pow2_add [of 52 "- 1074"] by (simp add: pow2_def)
  finally have "\<bar>x / ?q\<bar> \<le> of_int (2 ^ 52)"
    using pow2_pos [of "- 1074"] by (simp add: field_simps)
  then have "\<bar>rint (x / ?q)\<bar> \<le> 2 ^ 52" by (rule rint_abs_le)
  then have "\<bar>real_of_int (rint (x / ?q))\<bar> \<le> of_int (2 ^ 52)"
    by (metis of_int_abs of_int_le_iff)
  then have "\<bar>?y\<bar> \<le> of_int (2 ^ 52) * ?q"
    unfolding abs_mult using pow2_pos [of "- 1074"] by (simp add: mult_right_mono)
  also have "\<dots> < 2 ^ 1024" by (simp add: pow2_def)
  finally have "\<not> 2 ^ 1024 \<le> \<bar>?y\<bar>" by simp
  then show ?thesis using nz fl False by (simp add: round64_def Let_def max_def)
qed

lemma binade_exists:
  assumes "x \<noteq> 0"
  shows "pow2 \<lfloor>log 2 \<bar>x\<bar>\<rfloor> \<le> \<bar>x\<bar> \<and> \<bar>x\<bar> < pow2 (\<lfloor>log 2 \<bar>x\<bar>\<rfloor> + 1)"
proof -
  from assms have pos: "0 < \<bar>x\<bar>" by simp
  have "2 powr (of_int \<lfloor>log 2 \<bar>x\<bar>\<rfloor>) \<le> 2 powr (log 2 \<bar>x\<bar>)"
    by (intro powr_mono) simp_all
  then have 1: "2 powr (of_int \<lfloor>log 2 \<bar>x\<bar>\<rfloor>) \<le> \<bar>x\<bar>"
    using pos by simp
  have "log 2 \<bar>x\<bar> < of_int (\<lfloor>log 2 \<bar>x\<bar>\<rfloor> + 1)" by linarith
  then have "2 powr (log 2 \<bar>x\<bar>) < 2 powr (of_int (\<lfloor>log 2 \<bar>x\<bar>\<rfloor> + 1))"
    by (intro powr_less_mono) simp_all
  then have 2: "\<bar>x\<bar> < 2 powr (of_int (\<lfloor>log 2 \<bar>x\<bar>\<rfloor> + 1))"
    using pos by simp
  from 1 2 show ?thesis by (simp add: pow2_powr)
qed

text \<open>Every number \<open>k * 2 ^ j\<close> with \<open>|k| \<le> 2 ^ 53\<close> in the exponent range is a binary64 number.\<close>

lemma exact_dyadic:
  assumes k: "\<bar>k\<bar> \<le> 2 ^ 53" and j: "- 1074 \<le> j" "j \<le> 969"
  shows "exact (of_int k * pow2 j)"
proof (cases "k = 0")
  case True
  then show ?thesis by (simp add: exact_def round64_def)
next
  case False
  let ?x = "of_int k * pow2 j"
  have nz: "?x \<noteq> 0" using False pow2_pos [of j] by simp
  define e where "e = \<lfloor>log 2 \<bar>?x\<bar>\<rfloor>"
  from binade_exists [OF nz] have lo: "pow2 e \<le> \<bar>?x\<bar>" and hi: "\<bar>?x\<bar> < pow2 (e + 1)"
    by (simp_all add: e_def)
  have ak: "\<bar>?x\<bar> = of_int \<bar>k\<bar> * pow2 j" using pow2_pos [of j] by (simp add: abs_mult)
  have "of_int \<bar>k\<bar> \<le> (of_int (2 ^ 53) :: real)" using k by (metis of_int_le_iff)
  then have "\<bar>?x\<bar> \<le> pow2 53 * pow2 j"
    unfolding ak using pow2_pos [of j] by (simp add: pow2_53 mult_right_mono)
  then have xle: "\<bar>?x\<bar> \<le> pow2 (j + 53)" by (simp add: pow2_add mult.commute)
  have e_le: "e \<le> j + 53"
  proof (rule ccontr)
    assume "\<not> e \<le> j + 53"
    then have "pow2 (j + 53) < pow2 e" by (intro pow2_strict_mono) simp
    with lo xle show False by simp
  qed
  have "1 \<le> \<bar>k\<bar>" using False by simp
  then have "(1::real) \<le> of_int \<bar>k\<bar>" by (metis of_int_1 of_int_le_iff)
  then have "pow2 j \<le> \<bar>?x\<bar>" unfolding ak using pow2_pos [of j] by (simp add: mult_left_mono)
  with hi have "pow2 j < pow2 (e + 1)" by simp
  then have j_le: "j \<le> e"
  proof -
    have "\<not> e + 1 \<le> j" using \<open>pow2 j < pow2 (e + 1)\<close> pow2_mono [of "e + 1" j] by auto
    then show ?thesis by simp
  qed
  have e1022: "e \<le> 1022" using e_le j(2) by simp
  let ?u = "max e (- 1022) - 52"
  have ev: "round64 ?x = Fin (of_int (rint (?x / pow2 ?u)) * pow2 ?u)"
    using lo hi e1022 by (rule round64_eval)
  have "\<exists>m. ?x / pow2 ?u = of_int m"
  proof (cases "e = j + 53")
    case True
    with lo xle have "\<bar>?x\<bar> = pow2 (j + 53)" by simp
    then have x: "?x = pow2 (j + 53) \<or> ?x = - pow2 (j + 53)" by (simp add: abs_if split: if_splits)
    have u: "?u = j + 1" using True j(1) by simp
    have "pow2 (j + 53) = of_int (2 ^ 52) * pow2 (j + 1)"
      using pow2_add [of 52 "j + 1"] by (simp add: pow2_def [of 52] add.commute)
    then have "pow2 (j + 53) / pow2 ?u = of_int (2 ^ 52)"
      unfolding u using pow2_pos [of "j + 1"] by simp
    with x have "?x / pow2 ?u = of_int (2 ^ 52) \<or> ?x / pow2 ?u = of_int (- (2 ^ 52))"
      by (metis minus_divide_left of_int_minus)
    then show ?thesis by blast
  next
    case False
    with e_le have "e \<le> j + 52" by simp
    with j(1) have "?u \<le> j" by simp
    then obtain n where n: "j = ?u + int n" by (metis zle_iff_zadd)
    have "pow2 j = pow2 (int n) * pow2 ?u" by (subst n) (simp add: pow2_add mult.commute)
    then have "?x / pow2 ?u = of_int k * pow2 (int n)"
      using pow2_pos [of ?u] by simp
    also have "\<dots> = of_int (k * 2 ^ n)" by (simp add: pow2_def)
    finally show ?thesis by blast
  qed
  then obtain m where m: "?x / pow2 ?u = of_int m" ..
  then have "of_int (rint (?x / pow2 ?u)) * pow2 ?u = ?x"
    using pow2_pos [of ?u] by (simp add: rint_of_int field_simps)
  with ev show ?thesis by (simp add: exact_def)
qed


lemma exact_int: "\<bar>n\<bar> \<le> 2 ^ 53 \<Longrightarrow> exact (of_int n)"
  using exact_dyadic [of n 0] by (simp add: pow2_def)

lemma round64_numeral [simp]:
  "numeral k \<le> (2 ^ 53 :: int) \<Longrightarrow> round64 (numeral k) = Fin (numeral k)"
  using exact_int [of "numeral k"] by (simp add: exact_def)

lemma round64_neg_numeral [simp]:
  "numeral k \<le> (2 ^ 53 :: int) \<Longrightarrow> round64 (- numeral k) = Fin (- numeral k)"
  using exact_int [of "- numeral k"] by (simp add: exact_def)

lemma round64_0 [simp]: "round64 0 = Fin 0"
  by (simp add: round64_def)

lemma round64_1 [simp]: "round64 1 = Fin 1"
  using exact_int [of 1] by (simp add: exact_def)

lemma round64_m1 [simp]: "round64 (- 1) = Fin (- 1)"
  using exact_int [of "- 1"] by (simp add: exact_def)

lemma EPSILON_f64_value: "EPSILON_f64 = Fin (4835703278458517 / 2 ^ 82)"
proof -
  have "round64 (1 / 10 ^ 9) = Fin (of_int (rint (1 / 10 ^ 9 / pow2 (- 30 - 52))) * pow2 (- 30 - 52))"
    by (rule round64_normal) (simp_all add: pow2_def)
  then show ?thesis by (simp add: EPSILON_f64_def pow2_def rint_def)
qed




lemma fmul_NaN [simp]: "fmul NaN b = NaN" "fmul a NaN = NaN"
  by (cases b; simp) (cases a; simp)

lemma fdiv_NaN [simp]: "fdiv NaN b = NaN" "fdiv a NaN = NaN"
  by (cases b; simp) (cases a; simp)

lemma fadd_NaN [simp]: "fadd NaN b = NaN" "fadd a NaN = NaN"
  by (cases b; simp) (cases a; simp)

lemma fsub_NaN [simp]: "fsub NaN b = NaN" "fsub a NaN = NaN"
  by (simp_all add: fsub_def)

section \<open>Claims\<close>

subsection \<open>C1: admissibility of the heuristic\<close>

text \<open>
  C1 says that \<open>calculate_heuristic\<close> never exceeds the number of construction steps
  that remain, so that \<open>h(n) \<le> L - g(n)\<close> on every node of a returned path of length
  \<open>L\<close>. On \<open>two_points_one_line\<close> with a point target the heuristic is 3, yet
  \<open>solve\<close> returns a path of length 2 for the target point \<open>(-2, 0)\<close>: the circle
  about \<open>p1\<close> through \<open>p2\<close>, then its intersection with \<open>l1\<close>. At the initial node
  \<open>h = 3 > 2 = L - g\<close>.
\<close>

theorem heuristic_overestimates:
  "calculate_heuristic two_points_one_line Point = 3
   \<and> solve two_points_one_line (PointData (- 2, 0)) 20 =
       Inr (Some [\<lparr>operation = ''Circle'', inputs = [''p1'', ''p2''],
                    output_type = Circle, output_id = ''c1''\<rparr>,
                  \<lparr>operation = ''Intersection'', inputs = [''l1'', ''c1''],
                    output_type = Point, output_id = ''p3''\<rparr>], 4)"
  by (simp add: eval_defs two_points_one_line_def)

subsection \<open>C2: the next-id counters\<close>

text \<open>
  C2 says that in every state of a run each next-id counter is above every ordinal in
  use, also after an intersection that adds two points. On \<open>two_new_points_input\<close>
  the seeded counters are \<open>seeds_4_2_2\<close>. The first iteration of the
  main loop pops the initial node, whose counters are
  above all ordinals, and expands it with an empty rest of the open list. The first
  node it pushes (tie-breaker 1, the last of the list) is the successor of
  \<open>Intersection(l1, c1)\<close>: it holds the new points \<open>p4\<close> and \<open>p5\<close>, and its point
  counter is 5, one more than the ordinal of the step's output id \<open>p4\<close>.
\<close>

theorem counter_not_above_second_point:
  "initial_ids two_new_points_input = Inr seeds_4_2_2
   \<and> counters_above_ids (state (initial_node two_new_points_input seeds_4_2_2 (PointData (7, 7))))
   \<and> (case expand (PointData (7, 7))
              (initial_node two_new_points_input seeds_4_2_2 (PointData (7, 7)))
              (generate_successors
                 (state (initial_node two_new_points_input seeds_4_2_2 (PointData (7, 7)))))
              [] [get_state_hash two_new_points_input] 1 of
         Inl found \<Rightarrow> False
       | Inr (open_list, visited, counter) \<Rightarrow>
           tie_breaker (last open_list) = 1
           \<and> points (fst (state (last open_list))) =
               [(''p1'', (0, 0)), (''p2'', (3, 0)), (''p3'', (0, 4)), (''p4'', (0, - 3)), (''p5'', (0, 3))]
           \<and> snd (state (last open_list)) Point = 5
           \<and> \<not> counters_above_ids (state (last open_list)))"
  using initial_ids_two_new_points_input
  by (simp add: eval_defs two_new_points_input_def seeds_4_2_2_def sqrt_9 sqrt_16 sqrt_25
        counters_above_ids_def ordinals_below_def del: initial_ids_def)


subsection \<open>C3: idempotence of the canonical forms\<close>








subsection \<open>C4: one successor per intersecting pair\<close>

lemma generated_after_append:
  "generated_after objs np (xs @ ys) g = generated_after objs np ys (generated_after objs np xs g)"
  by (induction xs arbitrary: g) simp_all

lemma intersection_successors_append:
  "intersection_successors objs np (xs @ ys) g
     = intersection_successors objs np xs g
       @ intersection_successors objs np ys (generated_after objs np xs g)"
  by (induction xs arbitrary: g) (simp_all split: prod.splits)

lemma intersection_successors_blocks:
  "intersection_successors objs np cfgs 0
     = concat (map (\<lambda>i. fst (config_step objs np (cfgs ! i) (generated_after objs np (take i cfgs) 0)))
                [0..<length cfgs])"
proof (induction cfgs rule: rev_induct)
  case Nil
  then show ?case by simp
next
  case (snoc c cfgs)
  define F where "F = (\<lambda>i. fst (config_step objs np (cfgs ! i) (generated_after objs np (take i cfgs) 0)))"
  define F' where "F' = (\<lambda>i. fst (config_step objs np ((cfgs @ [c]) ! i)
      (generated_after objs np (take i (cfgs @ [c])) 0)))"
  have e: "map F' [0..<length cfgs] = map F [0..<length cfgs]"
    by (rule map_cong) (simp_all add: F_def F'_def nth_append)
  have l: "F' (length cfgs) = fst (config_step objs np c (generated_after objs np cfgs 0))"
    by (simp add: F'_def)
  have "intersection_successors objs np (cfgs @ [c]) 0
      = intersection_successors objs np cfgs 0
        @ fst (config_step objs np c (generated_after objs np cfgs 0))"
    by (simp add: intersection_successors_append split: prod.splits)
  also have "\<dots> = concat (map F [0..<length cfgs]) @ F' (length cfgs)"
    using snoc by (simp only: F_def l)
  also have "\<dots> = concat (map F' [0..<length (cfgs @ [c])])"
    by (simp add: e)
  finally show ?case by (simp only: F'_def)
qed

lemma config_step_length: "length (fst (config_step objs np cfg gen)) \<le> 1"
  by (simp add: config_step_def split: prod.splits)

lemma config_step_operation:
  "succ \<in> set (fst (config_step objs np cfg gen)) \<Longrightarrow>
     operation (snd succ) = ''Intersection'' \<and> inputs (snd succ) = [fst (snd cfg), snd (snd cfg)]"
  by (auto simp: config_step_def split: prod.splits if_splits)

lemma line_successors_operation:
  "succ \<in> set (line_successors objs n) \<Longrightarrow> operation (snd succ) = ''Line''"
  by (auto simp: line_successors_def Let_def simp del: add_object.simps split: if_splits prod.splits)

lemma circle_successors_operation:
  "succ \<in> set (circle_successors objs n) \<Longrightarrow> operation (snd succ) = ''Circle''"
  by (auto simp: circle_successors_def Let_def simp del: add_object.simps split: if_splits prod.splits)


lemma intersection_successors_inputs:
  "succ \<in> set (intersection_successors objs np cfgs g) \<Longrightarrow>
     \<exists>cfg \<in> set cfgs. operation (snd succ) = ''Intersection''
        \<and> inputs (snd succ) = [fst (snd cfg), snd (snd cfg)]"
proof (induction cfgs arbitrary: g)
  case Nil
  then show ?case by simp
next
  case (Cons c cfgs)
  obtain new g' where c: "config_step objs np c g = (new, g')"
    by (cases "config_step objs np c g")
  with Cons.prems consider "succ \<in> set (fst (config_step objs np c g))"
    | "succ \<in> set (intersection_successors objs np cfgs g')"
    by auto
  then show ?case
  proof cases
    case 1
    from config_step_operation [OF this] show ?thesis by simp
  next
    case 2
    from Cons.IH [OF this] show ?thesis by auto
  qed
qed

lemma combinations2_subset: "set (combinations2 xs) \<subseteq> set xs \<times> set xs"
  by (induction xs) auto

lemma distinct_combinations2: "distinct xs \<Longrightarrow> distinct (combinations2 xs)"
proof (induction xs)
  case Nil
  then show ?case by simp
next
  case (Cons x xs)
  have "inj_on (Pair x) (set xs)" by (simp add: inj_on_def)
  with Cons have "distinct (map (Pair x) xs)" by (simp add: distinct_map)
  moreover have "set (map (Pair x) xs) \<inter> set (combinations2 xs) = {}"
    using combinations2_subset [of xs] Cons.prems by auto
  ultimately show ?case using Cons by simp
qed

lemma intersection_configs_pairs:
  "map snd (intersection_configs objs)
     = combinations2 (dict_keys (lines objs))
       @ List.product (dict_keys (lines objs)) (dict_keys (circles objs))
       @ combinations2 (dict_keys (circles objs))"
proof -
  have c: "combinations2 xs = []" if "\<not> 2 \<le> length xs" for xs :: "string list"
  proof (cases xs)
    case Nil
    then show ?thesis by simp
  next
    case (Cons a ys)
    with that have "ys = []" by (cases ys) simp_all
    with Cons show ?thesis by simp
  qed
  have e: "List.product xs [] = []" for xs :: "string list"
    by (induction xs) simp_all
  have p: "List.product (dict_keys (lines objs)) (dict_keys (circles objs)) = []"
    if "\<not> (lines objs \<noteq> [] \<and> circles objs \<noteq> [])"
    using that e by (auto simp: dict_keys_def)
  show ?thesis
    using c [of "dict_keys (lines objs)"] c [of "dict_keys (circles objs)"] p
    by (simp add: intersection_configs_def dict_keys_def comp_def)
qed

lemma distinct_intersection_configs:
  assumes "distinct (dict_keys (lines objs))" and "distinct (dict_keys (circles objs))"
    and "set (dict_keys (lines objs)) \<inter> set (dict_keys (circles objs)) = {}"
  shows "distinct (map snd (intersection_configs objs))"
proof -
  let ?L = "dict_keys (lines objs)" and ?C = "dict_keys (circles objs)"
  have "distinct (combinations2 ?L)" "distinct (combinations2 ?C)"
    using assms(1,2) by (simp_all add: distinct_combinations2)
  moreover have "distinct (List.product ?L ?C)"
    using assms(1,2) by (rule distinct_product)
  moreover have "set (combinations2 ?L) \<inter> set (List.product ?L ?C) = {}"
    using combinations2_subset [of ?L] assms(3) by auto
  moreover have "set (combinations2 ?L) \<inter> set (combinations2 ?C) = {}"
    using combinations2_subset [of ?L] combinations2_subset [of ?C] assms(3) by auto
  moreover have "set (List.product ?L ?C) \<inter> set (combinations2 ?C) = {}"
    using combinations2_subset [of ?C] assms(3) by auto
  ultimately show ?thesis by (auto simp add: intersection_configs_pairs)
qed

lemma filter_pair_successors:
  assumes d: "distinct (map snd cfgs)" and i: "i < length cfgs"
  shows "filter (\<lambda>succ. operation (snd succ) = ''Intersection''
                  \<and> inputs (snd succ) = [fst (snd (cfgs ! i)), snd (snd (cfgs ! i))])
           (intersection_successors objs np cfgs 0)
         = fst (config_step objs np (cfgs ! i) (generated_after objs np (take i cfgs) 0))"
proof -
  let ?P = "\<lambda>succ. operation (snd succ) = ''Intersection''
                  \<and> inputs (snd succ) = [fst (snd (cfgs ! i)), snd (snd (cfgs ! i))]"
  let ?pre = "take i cfgs" and ?post = "drop (Suc i) cfgs"
  let ?g = "generated_after objs np ?pre 0"
  obtain new g' where c: "config_step objs np (cfgs ! i) ?g = (new, g')"
    by (cases "config_step objs np (cfgs ! i) ?g")
  have split: "cfgs = ?pre @ cfgs ! i # ?post"
    using i by (simp add: id_take_nth_drop)
  have other: "snd cfg \<noteq> snd (cfgs ! i)" if "cfg \<in> set ?pre \<union> set ?post" for cfg
  proof -
    from d have "distinct (map snd (?pre @ cfgs ! i # ?post))" using split by simp
    then have "snd (cfgs ! i) \<notin> snd ` (set ?pre \<union> set ?post)" by auto
    with that show ?thesis by (metis imageI)
  qed
  have none: "filter ?P (intersection_successors objs np cs g) = []"
    if "set cs \<subseteq> set ?pre \<union> set ?post" for cs g
  proof -
    have "\<not> ?P succ" if s: "succ \<in> set (intersection_successors objs np cs g)" for succ
    proof
      assume p: "?P succ"
      from intersection_successors_inputs [OF s] obtain cfg where
        cfg: "cfg \<in> set cs" "inputs (snd succ) = [fst (snd cfg), snd (snd cfg)]" by blast
      with p have "snd cfg = snd (cfgs ! i)" by (simp add: prod_eq_iff)
      with other [of cfg] cfg(1) \<open>set cs \<subseteq> set ?pre \<union> set ?post\<close> show False by blast
    qed
    then show ?thesis by (simp add: filter_empty_conv)
  qed
  have all: "filter ?P new = new"
    using config_step_operation [of _ objs np "cfgs ! i" ?g] c by (simp add: filter_id_conv)
  have "intersection_successors objs np cfgs 0
      = intersection_successors objs np ?pre 0 @ new @ intersection_successors objs np ?post g'"
    by (subst split) (simp add: intersection_successors_append c)
  then have "filter ?P (intersection_successors objs np cfgs 0) = new"
    using none [of ?pre 0] none [of ?post g'] all by simp
  with c show ?thesis by simp
qed


lemma config_step_two_points_eq:
  assumes "intersect_config objs cfg = ([q1, q2], 2)"
  shows "config_step objs np cfg gen =
     (let id1 = CHR ''p'' # str_of_nat (np + gen);
          id2 = CHR ''p'' # str_of_nat (np + gen + 1);
          st = \<lparr>operation = ''Intersection'', inputs = [fst (snd cfg), snd (snd cfg)],
                 output_type = Point, output_id = id1\<rparr>;
          with_q1 = store_figure objs id1 (PointData q1)
      in if canon_present (PointData q1) objs
         then (if canon_present (PointData q2) objs then ([], gen)
               else ([(store_figure objs id1 (PointData q2), st)], gen + 1))
         else (if canon_present (PointData q2) with_q1 then ([(with_q1, st)], gen + 1)
               else ([(store_figure with_q1 id2 (PointData q2), st)], gen + 2)))"
  using assms by (simp add: config_step_def add_object_eq Let_def add.assoc)

text \<open>
  C4, for the \<open>i\<close>-th configuration of \<open>intersection_configs\<close>, whose kernel call
  returns the two points \<open>q1\<close>, \<open>q2\<close> with count 2. The list that
  \<open>generate_successors\<close> returns is the concatenation, over the configurations in
  order, of what each iteration appends (\<open>pair_successors\<close>, at most one successor
  each), followed by the line and circle successors, none of which is an
  \<open>Intersection\<close> step. For the pair at hand the iteration appends at most one
  successor, never two; it appends none exactly when both points are already present
  canonically (the claim says exactly one in every case). When it appends one, that
  is a single \<open>Intersection\<close> step over the pair whose output id is the first id
  allocated, \<open>p\<close> followed by \<open>next_ids['point'] + points_generated_in_this_call\<close>;
  a point that is present canonically is not stored again, and each point that was
  not present in the state is present in the successor. When the ids of the lines
  and of the circles are pairwise distinct, the successors of the whole list whose
  step is an \<open>Intersection\<close> of the pair's two ids are exactly that block.
\<close>

theorem generate_successors_two_points:
  assumes i: "i < length (intersection_configs objs)"
    and k: "intersect_config objs (intersection_configs objs ! i) = ([q1, q2], 2)"
  shows "generate_successors (objs, ids)
           = concat (map (pair_successors (objs, ids)) [0..<length (intersection_configs objs)])
             @ line_successors objs (ids Line) @ circle_successors objs (ids Circle)
   \<and> (\<forall>j < length (intersection_configs objs). length (pair_successors (objs, ids) j) \<le> 1)
   \<and> (\<forall>succ \<in> set (line_successors objs (ids Line) @ circle_successors objs (ids Circle)).
         operation (snd succ) \<noteq> ''Intersection'')
   \<and> pair_successors (objs, ids) i =
       (let cfg = intersection_configs objs ! i;
            gen = generated_after objs (ids Point) (take i (intersection_configs objs)) 0;
            id1 = CHR ''p'' # str_of_nat (ids Point + gen);
            id2 = CHR ''p'' # str_of_nat (ids Point + gen + 1);
            st = \<lparr>operation = ''Intersection'', inputs = [fst (snd cfg), snd (snd cfg)],
                   output_type = Point, output_id = id1\<rparr>;
            with_q1 = store_figure objs id1 (PointData q1)
        in if canon_present (PointData q1) objs
           then (if canon_present (PointData q2) objs then []
                 else [(store_figure objs id1 (PointData q2), st)])
           else (if canon_present (PointData q2) with_q1 then [(with_q1, st)]
                 else [(store_figure with_q1 id2 (PointData q2), st)]))
   \<and> (pair_successors (objs, ids) i = []
        \<longleftrightarrow> canon_present (PointData q1) objs \<and> canon_present (PointData q2) objs)
   \<and> (\<forall>(objs', st) \<in> set (pair_successors (objs, ids) i).
        (\<not> canon_present (PointData q1) objs \<longrightarrow> canon_present (PointData q1) objs')
        \<and> (\<not> canon_present (PointData q2) objs \<longrightarrow> canon_present (PointData q2) objs'))
   \<and> (distinct (dict_keys (lines objs)) \<and> distinct (dict_keys (circles objs))
        \<and> set (dict_keys (lines objs)) \<inter> set (dict_keys (circles objs)) = {}
      \<longrightarrow> filter (\<lambda>succ. operation (snd succ) = ''Intersection''
                     \<and> inputs (snd succ) = [fst (snd (intersection_configs objs ! i)),
                                            snd (snd (intersection_configs objs ! i))])
             (generate_successors (objs, ids))
           = pair_successors (objs, ids) i)"
proof -
  let ?cfgs = "intersection_configs objs"
  let ?cfg = "?cfgs ! i"
  let ?np = "ids Point"
  let ?gen = "generated_after objs ?np (take i ?cfgs) 0"
  let ?id1 = "CHR ''p'' # str_of_nat (?np + ?gen)"
  let ?id2 = "CHR ''p'' # str_of_nat (?np + ?gen + 1)"
  let ?rest = "line_successors objs (ids Line) @ circle_successors objs (ids Circle)"
  have ps: "pair_successors (objs, ids) = (\<lambda>j. fst (config_step objs ?np (?cfgs ! j)
      (generated_after objs ?np (take j ?cfgs) 0)))"
    by (simp add: pair_successors_def fun_eq_iff)
  have dec: "generate_successors (objs, ids)
           = concat (map (pair_successors (objs, ids)) [0..<length ?cfgs]) @ ?rest"
    unfolding ps
    by (simp add: generate_successors_def intersection_successors_blocks [symmetric])
  have len: "\<forall>j < length ?cfgs. length (pair_successors (objs, ids) j) \<le> 1"
    unfolding ps using config_step_length by blast
  have ops: "\<forall>succ \<in> set ?rest. operation (snd succ) \<noteq> ''Intersection''"
    using line_successors_operation [of _ objs "ids Line"]
      circle_successors_operation [of _ objs "ids Circle"] by auto
  have ne: "?id1 \<noteq> ?id2"
    using str_of_nat_inject [of "?np + ?gen" "?np + ?gen + 1"] by auto
  have eq: "pair_successors (objs, ids) i =
       (let cfg = ?cfg; gen = ?gen; id1 = CHR ''p'' # str_of_nat (ids Point + gen);
            id2 = CHR ''p'' # str_of_nat (ids Point + gen + 1);
            st = \<lparr>operation = ''Intersection'', inputs = [fst (snd cfg), snd (snd cfg)],
                   output_type = Point, output_id = id1\<rparr>;
            with_q1 = store_figure objs id1 (PointData q1)
        in if canon_present (PointData q1) objs
           then (if canon_present (PointData q2) objs then []
                 else [(store_figure objs id1 (PointData q2), st)])
           else (if canon_present (PointData q2) with_q1 then [(with_q1, st)]
                 else [(store_figure with_q1 id2 (PointData q2), st)]))"
    unfolding ps by (simp add: config_step_two_points_eq [OF k] Let_def)
  have none: "pair_successors (objs, ids) i = []
        \<longleftrightarrow> canon_present (PointData q1) objs \<and> canon_present (PointData q2) objs"
    unfolding eq by (simp add: Let_def)
  have holds: "\<forall>(objs', st) \<in> set (pair_successors (objs, ids) i).
        (\<not> canon_present (PointData q1) objs \<longrightarrow> canon_present (PointData q1) objs')
        \<and> (\<not> canon_present (PointData q2) objs \<longrightarrow> canon_present (PointData q2) objs')"
    unfolding eq
    using canon_present_stored [of q1 objs ?id1] canon_present_stored [of q2 objs ?id1]
      canon_present_stored [of q2 "store_figure objs ?id1 (PointData q1)" ?id2]
      canon_present_stored_twice [OF ne, of q1 objs q2]
    by (simp add: Let_def del: store_figure.simps canon_present.simps)
  have filt: "filter (\<lambda>succ. operation (snd succ) = ''Intersection''
                     \<and> inputs (snd succ) = [fst (snd ?cfg), snd (snd ?cfg)])
             (generate_successors (objs, ids))
           = pair_successors (objs, ids) i"
    if d: "distinct (dict_keys (lines objs)) \<and> distinct (dict_keys (circles objs))
        \<and> set (dict_keys (lines objs)) \<inter> set (dict_keys (circles objs)) = {}"
  proof -
    from d have "distinct (map snd ?cfgs)" by (simp add: distinct_intersection_configs)
    from filter_pair_successors [OF this i, of objs ?np]
    have "filter (\<lambda>succ. operation (snd succ) = ''Intersection''
                     \<and> inputs (snd succ) = [fst (snd ?cfg), snd (snd ?cfg)])
             (intersection_successors objs ?np ?cfgs 0) = pair_successors (objs, ids) i"
      by (simp add: ps)
    moreover have "filter (\<lambda>succ. operation (snd succ) = ''Intersection''
                     \<and> inputs (snd succ) = [fst (snd ?cfg), snd (snd ?cfg)]) ?rest = []"
      using ops by (auto simp add: filter_empty_conv)
    ultimately show ?thesis by (simp add: generate_successors_def)
  qed
  from dec len ops eq none holds filt show ?thesis by blast
qed

theorem generate_successors_two_points_witness:
  "intersection_configs two_new_points_input = [(''lc'', ''l1'', ''c1'')]
   \<and> intersect_config two_new_points_input (''lc'', ''l1'', ''c1'') = ([(0, - 3), (0, 3)], 2)
   \<and> filter (\<lambda>succ. operation (snd succ) = ''Intersection'' \<and> inputs (snd succ) = [''l1'', ''c1''])
        (generate_successors (two_new_points_input, seeds_4_2_2))
       = [(two_new_points_input\<lparr>points := points two_new_points_input
             @ [(''p4'', (0, - 3)), (''p5'', (0, 3))]\<rparr>,
          \<lparr>operation = ''Intersection'', inputs = [''l1'', ''c1''],
           output_type = Point, output_id = ''p4''\<rparr>)]"
proof -
  have c: "intersection_configs two_new_points_input = [(''lc'', ''l1'', ''c1'')]"
    by (simp add: intersection_configs_def two_new_points_input_def dict_keys_def)
  have k: "intersect_config two_new_points_input (''lc'', ''l1'', ''c1'') = ([(0, - 3), (0, 3)], 2)"
    by (simp add: eval_defs two_new_points_input_def sqrt_9 sqrt_16)
  have i: "0 < length (intersection_configs two_new_points_input)" by (simp add: c)
  have k': "intersect_config two_new_points_input (intersection_configs two_new_points_input ! 0)
      = ([(0, - 3), (0, 3)], 2)"
    using k by (simp add: c)
  have d: "distinct (dict_keys (lines two_new_points_input))
      \<and> distinct (dict_keys (circles two_new_points_input))
      \<and> set (dict_keys (lines two_new_points_input)) \<inter> set (dict_keys (circles two_new_points_input)) = {}"
    by (simp add: two_new_points_input_def dict_keys_def)
  have np: "seeds_4_2_2 Point = 4"
    by (simp add: seeds_4_2_2_def)
  from generate_successors_two_points [OF i k', of seeds_4_2_2] d
  have "filter (\<lambda>succ. operation (snd succ) = ''Intersection'' \<and> inputs (snd succ) = [''l1'', ''c1''])
        (generate_successors (two_new_points_input, seeds_4_2_2))
       = (let id1 = CHR ''p'' # str_of_nat 4; id2 = CHR ''p'' # str_of_nat 5;
            st = \<lparr>operation = ''Intersection'', inputs = [''l1'', ''c1''],
                   output_type = Point, output_id = id1\<rparr>;
            with_q1 = store_figure two_new_points_input id1 (PointData (0, - 3))
        in if canon_present (PointData (0, - 3)) two_new_points_input
           then (if canon_present (PointData (0, 3)) two_new_points_input then []
                 else [(store_figure two_new_points_input id1 (PointData (0, 3)), st)])
           else (if canon_present (PointData (0, 3)) with_q1 then [(with_q1, st)]
                 else [(store_figure with_q1 id2 (PointData (0, 3)), st)]))"
    by (simp add: c np Let_def del: store_figure.simps canon_present.simps)
  then show ?thesis using c k
    by (simp add: two_new_points_input_def dict_values_def normalize_point_def py_round_def
          rint_def HASH_PRECISION_def str_of_nat.simps Let_def)
qed


text \<open>
  The claim C4 as stated fails when both points are present: on
  \<open>both_points_present\<close> the kernel returns count 2 for \<open>(l1, c1)\<close>, and
  \<open>generate_successors\<close> returns no \<open>Intersection\<close> successor at all.
\<close>

theorem no_successor_when_both_present:
  "(''lc'', ''l1'', ''c1'') \<in> set (intersection_configs both_points_present)
   \<and> intersect_config both_points_present (''lc'', ''l1'', ''c1'') = ([(- 1, 0), (1, 0)], 2)
   \<and> initial_ids both_points_present = Inr seeds_4_2_2
   \<and> filter (\<lambda>succ. operation (snd succ) = ''Intersection'')
        (generate_successors (both_points_present, seeds_4_2_2)) = []"
  using initial_ids_both_points_present
  by (simp add: eval_defs both_points_present_def seeds_4_2_2_def del: initial_ids_def)

subsection \<open>C5: line-line intersection\<close>

lemma intersect_line_line_f64_eq:
  "intersect_line_line_f64 (A1, B1, C1) (A2, B2, C2) =
     (if flt (fabs (fsub (fmul A1 B2) (fmul A2 B1))) EPSILON_f64 then ([], 0)
      else ([(fdiv (fsub (fmul B1 C2) (fmul B2 C1)) (fsub (fmul A1 B2) (fmul A2 B1)),
              fdiv (fsub (fmul A2 C1) (fmul A1 C2)) (fsub (fmul A1 B2) (fmul A2 B1)))], 1))"
  by (simp add: intersect_line_line_f64_def Let_def fmul_fneg_right fsub_fneg_fneg)

lemma cramer_solution:
  fixes a1 b1 c1 a2 b2 c2 :: real
  defines "d \<equiv> a1 * b2 - a2 * b1"
  defines "x \<equiv> (b1 * c2 - b2 * c1) / d"
  defines "y \<equiv> (a2 * c1 - a1 * c2) / d"
  assumes nz: "d \<noteq> 0"
  shows "a1 * x + b1 * y + c1 = 0 \<and> a2 * x + b2 * y + c2 = 0
       \<and> (\<forall>x' y'. a1 * x' + b1 * y' + c1 = 0 \<and> a2 * x' + b2 * y' + c2 = 0
              \<longrightarrow> x' = x \<and> y' = y)"
proof (intro conjI)
  have dx: "d * x = b1 * c2 - b2 * c1" and dy: "d * y = a2 * c1 - a1 * c2"
    using nz by (simp_all add: x_def y_def)
  have "d * (a1 * x + b1 * y + c1) = a1 * (d * x) + b1 * (d * y) + d * c1"
    by (simp add: algebra_simps)
  also have "\<dots> = a1 * (b1 * c2 - b2 * c1) + b1 * (a2 * c1 - a1 * c2) + d * c1"
    by (simp only: dx dy)
  also have "\<dots> = 0" by (simp add: d_def algebra_simps)
  finally have "d * (a1 * x + b1 * y + c1) = 0" .
  then show "a1 * x + b1 * y + c1 = 0" using nz by simp
  have "d * (a2 * x + b2 * y + c2) = a2 * (d * x) + b2 * (d * y) + d * c2"
    by (simp add: algebra_simps)
  also have "\<dots> = a2 * (b1 * c2 - b2 * c1) + b2 * (a2 * c1 - a1 * c2) + d * c2"
    by (simp only: dx dy)
  also have "\<dots> = 0" by (simp add: d_def algebra_simps)
  finally have "d * (a2 * x + b2 * y + c2) = 0" .
  then show "a2 * x + b2 * y + c2 = 0" using nz by simp
  show "\<forall>x' y'. a1 * x' + b1 * y' + c1 = 0 \<and> a2 * x' + b2 * y' + c2 = 0
                 \<longrightarrow> x' = x \<and> y' = y"
  proof (intro allI impI)
    fix x' y' assume h: "a1 * x' + b1 * y' + c1 = 0 \<and> a2 * x' + b2 * y' + c2 = 0"
    then have e1: "a1 * x' + b1 * y' + c1 = 0" and e2: "a2 * x' + b2 * y' + c2 = 0" by simp_all
    have "d * x' = b2 * (a1 * x' + b1 * y' + c1) - b1 * (a2 * x' + b2 * y' + c2)
                       + (b1 * c2 - b2 * c1)"
      by (simp add: d_def algebra_simps)
    then have "d * x' = d * x" using e1 e2 dx by simp
    moreover have "d * y' = a1 * (a2 * x' + b2 * y' + c2) - a2 * (a1 * x' + b1 * y' + c1)
                       + (a2 * c1 - a1 * c2)"
      by (simp add: d_def algebra_simps)
    then have "d * y' = d * y" using e1 e2 dy by simp
    ultimately show "x' = x \<and> y' = y" using nz by simp
  qed
qed

text \<open>
  C5 on binary64 values. For every pair of lines \<open>(A1, B1, C1)\<close> and
  \<open>(A2, B2, C2)\<close>, \<open>intersect_line_line\<close> returns count 0 when the float64 value
  \<open>det\<close> of \<open>A1 * B2 - A2 * B1\<close> (each product rounded, then the difference) has
  \<open>|det| < 1e-9\<close>, and otherwise (also when \<open>det\<close> is NaN) count 1 with the float64
  values of Cramer's quotients \<open>(B1 * C2 - B2 * C1) / det\<close> and
  \<open>(A2 * C1 - A1 * C2) / det\<close>. When the coefficients are finite and none of these
  operations rounds, that point is the common solution of the two line equations and
  the only one.
\<close>

theorem intersect_line_line_f64_cramer:
  "intersect_line_line_f64 (A1, B1, C1) (A2, B2, C2) =
     (if flt (fabs (fsub (fmul A1 B2) (fmul A2 B1))) EPSILON_f64 then ([], 0)
      else ([(fdiv (fsub (fmul B1 C2) (fmul B2 C1)) (fsub (fmul A1 B2) (fmul A2 B1)),
              fdiv (fsub (fmul A2 C1) (fmul A1 C2)) (fsub (fmul A1 B2) (fmul A2 B1)))], 1))
   \<and> (\<forall>a1 b1 c1 a2 b2 c2.
         (A1, B1, C1) = (Fin a1, Fin b1, Fin c1) \<and> (A2, B2, C2) = (Fin a2, Fin b2, Fin c2)
         \<and> exact (a1 * b2) \<and> exact (a2 * b1) \<and> exact (a1 * b2 - a2 * b1)
         \<and> \<not> flt (Fin \<bar>a1 * b2 - a2 * b1\<bar>) EPSILON_f64
         \<and> exact (b1 * c2) \<and> exact (b2 * c1) \<and> exact (b1 * c2 - b2 * c1)
         \<and> exact (a2 * c1) \<and> exact (a1 * c2) \<and> exact (a2 * c1 - a1 * c2)
         \<and> exact ((b1 * c2 - b2 * c1) / (a1 * b2 - a2 * b1))
         \<and> exact ((a2 * c1 - a1 * c2) / (a1 * b2 - a2 * b1))
       \<longrightarrow> (let x = (b1 * c2 - b2 * c1) / (a1 * b2 - a2 * b1);
                y = (a2 * c1 - a1 * c2) / (a1 * b2 - a2 * b1)
            in intersect_line_line_f64 (A1, B1, C1) (A2, B2, C2) = ([(Fin x, Fin y)], 1)
               \<and> a1 * x + b1 * y + c1 = 0 \<and> a2 * x + b2 * y + c2 = 0
               \<and> (\<forall>x' y'. a1 * x' + b1 * y' + c1 = 0 \<and> a2 * x' + b2 * y' + c2 = 0
                     \<longrightarrow> x' = x \<and> y' = y)))"
proof (intro conjI allI impI)
  show "intersect_line_line_f64 (A1, B1, C1) (A2, B2, C2) =
     (if flt (fabs (fsub (fmul A1 B2) (fmul A2 B1))) EPSILON_f64 then ([], 0)
      else ([(fdiv (fsub (fmul B1 C2) (fmul B2 C1)) (fsub (fmul A1 B2) (fmul A2 B1)),
              fdiv (fsub (fmul A2 C1) (fmul A1 C2)) (fsub (fmul A1 B2) (fmul A2 B1)))], 1))"
    by (rule intersect_line_line_f64_eq)
next
  fix a1 b1 c1 a2 b2 c2 :: real
  let ?d = "a1 * b2 - a2 * b1"
  assume h: "(A1, B1, C1) = (Fin a1, Fin b1, Fin c1) \<and> (A2, B2, C2) = (Fin a2, Fin b2, Fin c2)
         \<and> exact (a1 * b2) \<and> exact (a2 * b1) \<and> exact (a1 * b2 - a2 * b1)
         \<and> \<not> flt (Fin \<bar>a1 * b2 - a2 * b1\<bar>) EPSILON_f64
         \<and> exact (b1 * c2) \<and> exact (b2 * c1) \<and> exact (b1 * c2 - b2 * c1)
         \<and> exact (a2 * c1) \<and> exact (a1 * c2) \<and> exact (a2 * c1 - a1 * c2)
         \<and> exact ((b1 * c2 - b2 * c1) / (a1 * b2 - a2 * b1))
         \<and> exact ((a2 * c1 - a1 * c2) / (a1 * b2 - a2 * b1))"
  from h have A: "A1 = Fin a1" "B1 = Fin b1" "C1 = Fin c1" "A2 = Fin a2" "B2 = Fin b2"
    "C2 = Fin c2" by simp_all
  from h have ex: "round64 (a1 * b2) = Fin (a1 * b2)" "round64 (a2 * b1) = Fin (a2 * b1)"
    "round64 (a1 * b2 - a2 * b1) = Fin (a1 * b2 - a2 * b1)"
    "round64 (b1 * c2) = Fin (b1 * c2)" "round64 (b2 * c1) = Fin (b2 * c1)"
    "round64 (b1 * c2 - b2 * c1) = Fin (b1 * c2 - b2 * c1)"
    "round64 (a2 * c1) = Fin (a2 * c1)" "round64 (a1 * c2) = Fin (a1 * c2)"
    "round64 (a2 * c1 - a1 * c2) = Fin (a2 * c1 - a1 * c2)"
    "round64 ((b1 * c2 - b2 * c1) / ?d) = Fin ((b1 * c2 - b2 * c1) / ?d)"
    "round64 ((a2 * c1 - a1 * c2) / ?d) = Fin ((a2 * c1 - a1 * c2) / ?d)"
    by (simp_all add: exact_def)
  from h have big: "\<not> flt (Fin \<bar>?d\<bar>) EPSILON_f64" by simp
  then have nz: "?d \<noteq> 0" by (auto simp: EPSILON_f64_value)
  have "intersect_line_line_f64 (A1, B1, C1) (A2, B2, C2)
      = ([(Fin ((b1 * c2 - b2 * c1) / ?d), Fin ((a2 * c1 - a1 * c2) / ?d))], 1)"
    unfolding A intersect_line_line_f64_eq using big nz
    by (simp add: fsub_def ex)
  with cramer_solution [OF nz, of c2 c1]
  show "let x = (b1 * c2 - b2 * c1) / (a1 * b2 - a2 * b1);
            y = (a2 * c1 - a1 * c2) / (a1 * b2 - a2 * b1)
        in intersect_line_line_f64 (A1, B1, C1) (A2, B2, C2) = ([(Fin x, Fin y)], 1)
           \<and> a1 * x + b1 * y + c1 = 0 \<and> a2 * x + b2 * y + c2 = 0
           \<and> (\<forall>x' y'. a1 * x' + b1 * y' + c1 = 0 \<and> a2 * x' + b2 * y' + c2 = 0
                 \<longrightarrow> x' = x \<and> y' = y)"
    unfolding Let_def by blast
qed


theorem intersect_line_line_f64_cramer_witness:
  "intersect_line_line_f64 (Fin 1, Fin 0, Fin (- 1)) (Fin 0, Fin 1, Fin (- 2)) = ([(Fin 1, Fin 2)], 1)
   \<and> intersect_line_line_f64 (Fin 1, Fin 2, Fin 3) (Fin 2, Fin 4, Fin 5) = ([], 0)"
proof -
  have "\<not> flt (Fin \<bar>1 * 1 - 0 * 0\<bar>) EPSILON_f64" by (simp add: EPSILON_f64_value)
  with intersect_line_line_f64_cramer [of "Fin 1" "Fin 0" "Fin (- 1)" "Fin 0" "Fin 1" "Fin (- 2)"]
  have a: "intersect_line_line_f64 (Fin 1, Fin 0, Fin (- 1)) (Fin 0, Fin 1, Fin (- 2))
      = ([(Fin 1, Fin 2)], 1)"
    by (simp add: exact_def fsub_def)
  have "flt (fabs (fsub (fmul (Fin 1) (Fin 4)) (fmul (Fin 2) (Fin 2)))) EPSILON_f64"
    by (simp add: fsub_def EPSILON_f64_value)
  with intersect_line_line_f64_cramer [of "Fin 1" "Fin 2" "Fin 3" "Fin 2" "Fin 4" "Fin 5"]
  have "intersect_line_line_f64 (Fin 1, Fin 2, Fin 3) (Fin 2, Fin 4, Fin 5) = ([], 0)"
    by simp
  with a show ?thesis by simp
qed

lemma round64_2_54_2_28_1: "round64 18014398777917441 = Fin 18014398777917440"
proof -
  have "round64 18014398777917441
      = Fin (of_int (rint (18014398777917441 / pow2 (54 - 52))) * pow2 (54 - 52))"
    by (rule round64_normal) (simp_all add: pow2_def)
  then show ?thesis by (simp add: pow2_def rint_def)
qed

lemma round64_2_54_2_28: "round64 18014398777917440 = Fin 18014398777917440"
proof -
  have "round64 18014398777917440
      = Fin (of_int (rint (18014398777917440 / pow2 (54 - 52))) * pow2 (54 - 52))"
    by (rule round64_normal) (simp_all add: pow2_def)
  then show ?thesis by (simp add: pow2_def rint_def)
qed

text \<open>
  The claim C5 as stated, with \<open>det\<close> the number \<open>A1 * B2 - A2 * B1\<close>, fails: the
  lines \<open>(134217729, 134217730, 0)\<close> and \<open>(134217728, 134217729, -1)\<close> have the
  determinant 1 and meet in the single point \<open>(-134217730, 134217729)\<close>, but the
  product \<open>134217729 * 134217729 = 2 ^ 54 + 2 ^ 28 + 1\<close> rounds to
  \<open>2 ^ 54 + 2 ^ 28\<close>, the float64 determinant is 0 and the kernel returns count 0.
\<close>

theorem intersect_line_line_f64_rounded_det:
  "intersect_line_line_f64 (Fin 134217729, Fin 134217730, Fin 0)
       (Fin 134217728, Fin 134217729, Fin (- 1)) = ([], 0)
   \<and> 134217729 * 134217729 - 134217728 * 134217730 = (1 :: real)
   \<and> \<not> \<bar>1 :: real\<bar> < 1 / 10 ^ 9
   \<and> 134217729 * (- 134217730) + 134217730 * 134217729 + 0 = (0 :: real)
   \<and> 134217728 * (- 134217730) + 134217729 * 134217729 + (- 1) = (0 :: real)"
  by (simp add: intersect_line_line_f64_def fsub_def round64_2_54_2_28_1 round64_2_54_2_28
        EPSILON_f64_value)

subsection \<open>C6: line-circle intersection\<close>















subsection \<open>C7: order independence of line construction\<close>

lemma sqrt_10_18: "sqrt 1000000000000000000 = 1000000000"
  by (rule real_sqrt_unique) simp_all

text \<open>
  C7 says that \<open>construct_line_from_points p1 p2\<close> and
  \<open>construct_line_from_points p2 p1\<close> have the same canonical form. The second line
  is the first with all three coefficients negated, and \<open>normalize_line\<close> picks one
  of the two by its sign convention: it negates when \<open>abs(A) > 1e-9 and A < 0\<close>, or
  when \<open>abs(A) < 1e-9 and abs(B) > 1e-9 and B < 0\<close>. Neither test fires when the
  scaled \<open>A\<close> has magnitude exactly \<open>1e-9\<close>, so both the triple and its negation
  are kept as they are. In exact arithmetic the scaled \<open>A\<close> of the two points below
  is \<open>1e-9\<close>; in float64 the points \<open>(0, 0)\<close> and \<open>(1, -1e-9)\<close> reach the same
  branch, because \<open>sqrt(1e-18 + 1.0)\<close> rounds to \<open>1.0\<close>.
\<close>

theorem normalize_line_sign_gap:
  "fst (normalize_line (construct_line_from_points (0, 0) (sqrt 999999999999999999, - 1)))
     = 1 / 10 ^ 9
   \<and> fst (normalize_line (construct_line_from_points (sqrt 999999999999999999, - 1) (0, 0)))
     = - (1 / 10 ^ 9)"
  by (simp add: construct_line_from_points_def normalize_line_def sqrt_10_18 py_round_def
        rint_def HASH_PRECISION_def Let_def)

lemma abs_less_square_iff:
  fixes x y :: real
  shows "\<bar>x\<bar> < \<bar>y\<bar> \<longleftrightarrow> x\<^sup>2 < y\<^sup>2"
  using abs_le_square_iff [of y x] by (simp only: not_le [symmetric])

lemma unit_components:
  fixes A B :: real
  assumes n: "0 < sqrt (A\<^sup>2 + B\<^sup>2)" and small: "\<bar>A / sqrt (A\<^sup>2 + B\<^sup>2)\<bar> < 1 / 10 ^ 9"
  shows "\<bar>B / sqrt (A\<^sup>2 + B\<^sup>2)\<bar> > 1 / 10 ^ 9"
proof -
  define N where "N = A\<^sup>2 + B\<^sup>2"
  from n have N: "0 < N" by (simp add: N_def)
  define a b where "a = A / sqrt N" and "b = B / sqrt N"
  have "a\<^sup>2 + b\<^sup>2 = (A\<^sup>2 + B\<^sup>2) / (sqrt N)\<^sup>2"
    by (simp only: a_def b_def power_divide add_divide_distrib)
  also have "\<dots> = N / N" using N by (simp add: N_def)
  also have "\<dots> = 1" using N by simp
  finally have one: "a\<^sup>2 + b\<^sup>2 = 1" .
  from small have "\<bar>a\<bar> < \<bar>1 / 10 ^ 9\<bar>" by (simp add: a_def N_def)
  then have "a\<^sup>2 < (1 / 10 ^ 9)\<^sup>2" by (rule abs_less_square_iff [THEN iffD1])
  moreover have "(1 / 10 ^ 9 :: real)\<^sup>2 < 1 / 2" by (simp add: power2_eq_square)
  ultimately have "(1 / 10 ^ 9)\<^sup>2 < b\<^sup>2" using one by linarith
  then have "\<bar>1 / 10 ^ 9 :: real\<bar> < \<bar>b\<bar>" by (rule abs_less_square_iff [THEN iffD2])
  then show ?thesis by (simp add: b_def N_def)
qed

lemma sign_convention_neg:
  fixes a b c e :: real
  assumes ne: "\<bar>a\<bar> \<noteq> e" and b: "\<bar>a\<bar> < e \<Longrightarrow> \<bar>b\<bar> > e" and e: "0 < e"
  shows "(if \<bar>- a\<bar> > e \<and> - a < 0 then (- (- a), - (- b), - (- c))
          else if \<bar>- a\<bar> < e \<and> \<bar>- b\<bar> > e \<and> - b < 0 then (- (- a), - (- b), - (- c))
          else (- a, - b, - c))
       = (if \<bar>a\<bar> > e \<and> a < 0 then (- a, - b, - c)
          else if \<bar>a\<bar> < e \<and> \<bar>b\<bar> > e \<and> b < 0 then (- a, - b, - c)
          else (a, b, c))"
proof -
  consider (neg) "a < - e" | (pos) "e < a" | (mid) "\<bar>a\<bar> < e"
    using ne by linarith
  then show ?thesis
  proof cases
    case neg
    with e have "\<bar>a\<bar> > e" "a < 0" "\<not> \<bar>a\<bar> < e" by linarith+
    then show ?thesis by simp
  next
    case pos
    with e have "\<bar>a\<bar> > e" "\<not> a < 0" "0 < a" "\<not> \<bar>a\<bar> < e" by linarith+
    then show ?thesis by simp
  next
    case mid
    from b [OF mid] consider (bneg) "b < - e" | (bpos) "e < b" by linarith
    then show ?thesis
    proof cases
      case bneg
      with e have "\<bar>b\<bar> > e" "b < 0" "\<not> 0 < b" by linarith+
      with mid show ?thesis by simp
    next
      case bpos
      with e have "\<bar>b\<bar> > e" "\<not> b < 0" "0 < b" by linarith+
      with mid show ?thesis by simp
    qed
  qed
qed

lemma normalize_line_neg:
  fixes A B C :: real
  assumes off: "\<bar>A / sqrt (A\<^sup>2 + B\<^sup>2)\<bar> \<noteq> 1 / 10 ^ 9"
  shows "normalize_line (- A, - B, - C) = normalize_line (A, B, C)"
proof (cases "sqrt (A\<^sup>2 + B\<^sup>2) < 1 / 10 ^ 9")
  case True
  then show ?thesis by (simp add: normalize_line_def)
next
  case False
  define n where "n = sqrt (A\<^sup>2 + B\<^sup>2)"
  define e :: real where "e = 1 / 10 ^ 9"
  have e: "0 < e" by (simp add: e_def)
  with False have n: "0 < n" unfolding n_def e_def by linarith
  define a b c where "a = A / n" and "b = B / n" and "c = C / n"
  have 1: "normalize_line (A, B, C) =
      (case (if \<bar>a\<bar> > e \<and> a < 0 then (- a, - b, - c)
             else if \<bar>a\<bar> < e \<and> \<bar>b\<bar> > e \<and> b < 0 then (- a, - b, - c)
             else (a, b, c)) of (A, B, C) \<Rightarrow>
         (py_round A 10, py_round B 10, py_round C 10))"
    using False
    by (simp only: normalize_line_def prod.case Let_def n_def [symmetric] a_def [symmetric]
          b_def [symmetric] c_def [symmetric] e_def [symmetric] HASH_PRECISION_def if_False)
  have "sqrt ((- A)\<^sup>2 + (- B)\<^sup>2) = n" by (simp add: n_def)
  moreover have "- A / n = - a" "- B / n = - b" "- C / n = - c"
    by (simp_all add: a_def b_def c_def)
  ultimately have 2: "normalize_line (- A, - B, - C) =
      (case (if \<bar>- a\<bar> > e \<and> - a < 0 then (- (- a), - (- b), - (- c))
             else if \<bar>- a\<bar> < e \<and> \<bar>- b\<bar> > e \<and> - b < 0 then (- (- a), - (- b), - (- c))
             else (- a, - b, - c)) of (A, B, C) \<Rightarrow>
         (py_round A 10, py_round B 10, py_round C 10))"
    using False
    by (simp only: normalize_line_def prod.case Let_def n_def [symmetric]
          e_def [symmetric] HASH_PRECISION_def if_False)
  have ne: "\<bar>a\<bar> \<noteq> e" using off by (simp add: a_def n_def e_def)
  have bb: "\<bar>b\<bar> > e" if "\<bar>a\<bar> < e"
    using unit_components [of A B] n that by (simp add: a_def b_def n_def e_def)
  have eq: "(if \<bar>- a\<bar> > e \<and> - a < 0 then (- (- a), - (- b), - (- c))
          else if \<bar>- a\<bar> < e \<and> \<bar>- b\<bar> > e \<and> - b < 0 then (- (- a), - (- b), - (- c))
          else (- a, - b, - c))
       = (if \<bar>a\<bar> > e \<and> a < 0 then (- a, - b, - c)
          else if \<bar>a\<bar> < e \<and> \<bar>b\<bar> > e \<and> b < 0 then (- a, - b, - c)
          else (a, b, c))"
    using ne bb e by (rule sign_convention_neg)
  show ?thesis unfolding 1 2 eq by (rule refl)
qed

text \<open>
  Away from that boundary the two construction orders do give the same canonical
  form.
\<close>

theorem line_order_independent_off_boundary:
  assumes "construct_line_from_points p1 p2 = (A, B, C)"
    and "\<bar>A / sqrt (A\<^sup>2 + B\<^sup>2)\<bar> \<noteq> 1 / 10 ^ 9"
  shows "normalize_line (construct_line_from_points p1 p2)
       = normalize_line (construct_line_from_points p2 p1)"
proof -
  from assms(1) have "construct_line_from_points p2 p1 = (- A, - B, - C)"
    by (auto simp: construct_line_from_points_def Let_def)
  with assms normalize_line_neg [of A B C] show ?thesis by simp
qed

theorem line_order_independent_off_boundary_witness:
  "normalize_line (construct_line_from_points (0, 0) (2, 0))
   = normalize_line (construct_line_from_points (2, 0) (0, 0))"
proof -
  have c: "construct_line_from_points (0, 0) (2, 0) = (0, 2, 0)"
    by (simp add: construct_line_from_points_def)
  have "\<bar>(0::real) / sqrt (0\<^sup>2 + 2\<^sup>2)\<bar> \<noteq> 1 / 10 ^ 9" by simp
  from line_order_independent_off_boundary [OF c this] show ?thesis .
qed

subsection \<open>C8: no empty path\<close>

lemma seed_next_id_raises: "(\<exists>e. seed_next_id d = Inl e) \<longleftrightarrow> seed_raises d"
proof -
  have "list_ex (\<lambda>v. v = None) (map f (filter P ks)) = list_ex (\<lambda>k. P k \<and> f k = None) ks"
    for f :: "string \<Rightarrow> nat option" and P ks
    by (induction ks) auto
  then show ?thesis by (simp add: seed_next_id_def seed_raises_def Let_def)
qed

lemma initial_ids_raises: "(\<exists>e. initial_ids objs = Inl e) \<longleftrightarrow> solve_raises objs"
  using seed_next_id_raises [of "points objs"] seed_next_id_raises [of "lines objs"]
    seed_next_id_raises [of "circles objs"]
  by (auto simp: initial_ids_def solve_raises_def split: sum.splits)

lemma expand_Inl_nonempty:
  "expand target cur succs open_list visited counter = Inl (p, n) \<Longrightarrow> p \<noteq> []"
  by (induction succs arbitrary: open_list visited counter)
     (auto simp: Let_def split: if_splits)

lemma search_path_nonempty:
  "search target max_steps open_list visited counter = (Some p, n) \<Longrightarrow> p \<noteq> []"
proof (induction target max_steps open_list visited counter rule: search.induct)
  case (1 target max_steps open_list visited counter)
  show ?case
  proof (cases open_list)
    case Nil
    with "1.prems" show ?thesis by (simp add: search.simps)
  next
    case (Cons m ms)
    obtain cur rest where pop: "heappop m ms = (cur, rest)" by (cases "heappop m ms")
    show ?thesis
    proof (cases "max_steps \<le> int (g_cost cur)")
      case True
      with Cons pop "1.prems" have "search target max_steps rest visited counter = (Some p, n)"
        by (simp add: search.simps [of target max_steps "m # ms"])
      with "1.IH"(1) [OF Cons pop [symmetric] True] show ?thesis by simp
    next
      case g: False
      show ?thesis
      proof (cases "expand target cur (generate_successors (state cur)) rest visited counter")
        case (Inl a)
        with Cons pop g "1.prems" have "a = (p, n)"
          by (cases a) (simp add: search.simps [of target max_steps "m # ms"])
        with Inl expand_Inl_nonempty show ?thesis by blast
      next
        case (Inr b)
        obtain ol' v' c' where b: "b = (ol', v', c')" by (cases b)
        with Inr Cons pop g "1.prems" have "search target max_steps ol' v' c' = (Some p, n)"
          by (simp add: search.simps [of target max_steps "m # ms"])
        with "1.IH"(2) [OF Cons pop [symmetric] g Inr [unfolded b]] show ?thesis
          by simp
      qed
    qed
  qed
qed

text \<open>
  C8. The goal test runs only on the figure a successor step has just created, so
  \<open>solve\<close> never returns a path of length 0: every invocation that returns, in
  particular one whose initial state already holds a figure with the target's
  canonical form, returns either a path of length at least 1 or \<open>(None, stats)\<close>.
  \<open>search\<close> is total, so the main loop always ends; \<open>solve\<close> raises
  \<open>ValueError\<close> instead of returning exactly when the tail of some known id passes
  \<open>isdigit\<close> and is rejected by \<open>int\<close>.
\<close>

theorem solve_never_returns_empty_path:
  "(solve initial_objects target_definition max_steps = Inl ValueError
      \<longleftrightarrow> solve_raises initial_objects)
   \<and> (\<not> solve_raises initial_objects \<longrightarrow>
        (\<exists>r stats. solve initial_objects target_definition max_steps = Inr (r, stats)))
   \<and> (\<forall>r stats. solve initial_objects target_definition max_steps = Inr (r, stats)
        \<longrightarrow> r = None \<or> (\<exists>p. r = Some p \<and> 1 \<le> length p))"
proof (intro conjI allI impI)
  show raises: "solve initial_objects target_definition max_steps = Inl ValueError
      \<longleftrightarrow> solve_raises initial_objects"
  proof (cases "initial_ids initial_objects")
    case (Inl e)
    then have "solve initial_objects target_definition max_steps = Inl ValueError"
      by (cases e) (simp add: solve_def)
    moreover from Inl have "solve_raises initial_objects"
      using initial_ids_raises [of initial_objects] by blast
    ultimately show ?thesis by simp
  next
    case (Inr ids)
    then have "solve initial_objects target_definition max_steps \<noteq> Inl ValueError"
      by (simp add: solve_def Let_def)
    moreover from Inr have "\<not> solve_raises initial_objects"
      using initial_ids_raises [of initial_objects] by auto
    ultimately show ?thesis by simp
  qed
  show "\<exists>r stats. solve initial_objects target_definition max_steps = Inr (r, stats)"
    if "\<not> solve_raises initial_objects"
  proof (cases "solve initial_objects target_definition max_steps")
    case (Inl e)
    with raises that show ?thesis by (cases e) simp
  next
    case (Inr res)
    then show ?thesis by (cases res) simp
  qed
  fix r stats
  assume "solve initial_objects target_definition max_steps = Inr (r, stats)"
  then obtain ids where "search target_definition max_steps
      [initial_node initial_objects ids target_definition] [get_state_hash initial_objects] 1
      = (r, stats)"
    by (auto simp: solve_def Let_def split: sum.splits)
  then have "p \<noteq> []" if "r = Some p" for p
    using that search_path_nonempty by blast
  then show "r = None \<or> (\<exists>p. r = Some p \<and> 1 \<le> length p)"
    by (cases r) (auto simp: Suc_le_eq)
qed

theorem solve_never_returns_empty_path_witness:
  "solve \<lparr>points = [(''p1'', (3, 4))], lines = [], circles = []\<rparr> (PointData (3, 4)) 20
     = Inr (None, 1)
   \<and> solve superscript_id (PointData (3, 4)) 20 = Inl ValueError
   \<and> (case solve two_points_one_line (PointData (- 2, 0)) 20 of
         Inl e \<Rightarrow> False
       | Inr (r, stats) \<Rightarrow> r = None \<or> (\<exists>p. r = Some p \<and> 1 \<le> length p))"
proof -
  have a: "solve \<lparr>points = [(''p1'', (3, 4))], lines = [], circles = []\<rparr> (PointData (3, 4)) 20
      = Inr (None, 1)"
    by (simp add: eval_defs)
  have "solve_raises superscript_id"
    by (simp add: solve_raises_def seed_raises_def superscript_id_def eval_defs)
  with solve_never_returns_empty_path [of superscript_id "PointData (3, 4)" 20]
  have b: "solve superscript_id (PointData (3, 4)) 20 = Inl ValueError" by blast
  have "\<not> solve_raises two_points_one_line"
    by (simp add: solve_raises_def seed_raises_def two_points_one_line_def eval_defs)
  with solve_never_returns_empty_path [of two_points_one_line "PointData (- 2, 0)" 20]
  obtain r stats where c: "solve two_points_one_line (PointData (- 2, 0)) 20 = Inr (r, stats)"
    and "r = None \<or> (\<exists>p. r = Some p \<and> 1 \<le> length p)"
    by blast
  with a b show ?thesis by simp
qed

subsection \<open>C10: successors only grow\<close>

text \<open>One accepted \<open>_add_object\<close> call at an id that is not yet a key.\<close>

lemma add_object_grows:
  assumes add: "add_object objs n fig = (objs', True, new_id)"
    and fresh: "type_initial (figure_type fig) # str_of_nat n \<notin> keys_of objs (figure_type fig)"
  shows "successor_grows objs (objs', \<lparr>operation = opn, inputs = ins,
           output_type = figure_type fig, output_id = the new_id\<rparr>)"
proof -
  let ?k = "type_initial (figure_type fig) # str_of_nat n"
  from add have absent: "\<not> canon_present fig objs" and objs': "objs' = store_figure objs ?k fig"
    by (auto simp: add_object_eq split: if_splits)
  from store_figure_present [of fig objs ?k] absent
  have "\<exists>f \<in> set (figures_of objs' (figure_type fig)). \<not> canon_present f objs"
    unfolding objs' by blast
  with store_figure_grows [OF fresh] store_figure_frame [of fig objs ?k]
  show ?thesis by (simp add: successor_grows_def objs')
qed

lemma line_successors_grow:
  assumes "succ \<in> set (line_successors objs n)"
    and "type_initial Line # str_of_nat n \<notin> keys_of objs Line"
  shows "successor_grows objs succ"
proof -
  from assms(1) have "\<exists>p1_id p2_id new_objs new_id.
      add_object objs n (LineData (construct_line_from_points
          (getitem (points objs) p1_id) (getitem (points objs) p2_id))) = (new_objs, True, new_id)
      \<and> succ = (new_objs, \<lparr>operation = ''Line'', inputs = [p1_id, p2_id],
          output_type = Line, output_id = the new_id\<rparr>)"
    by (auto simp: line_successors_def Let_def simp del: add_object.simps
          split: if_splits prod.splits) metis
  then obtain p1_id p2_id new_objs new_id where
    a: "add_object objs n (LineData (construct_line_from_points
          (getitem (points objs) p1_id) (getitem (points objs) p2_id))) = (new_objs, True, new_id)"
    and s: "succ = (new_objs, \<lparr>operation = ''Line'', inputs = [p1_id, p2_id],
          output_type = Line, output_id = the new_id\<rparr>)"
    by blast
  from add_object_grows [OF a] assms(2) show ?thesis unfolding s by simp
qed

lemma circle_successors_grow:
  assumes "succ \<in> set (circle_successors objs n)"
    and "type_initial Circle # str_of_nat n \<notin> keys_of objs Circle"
  shows "successor_grows objs succ"
proof -
  from assms(1) have "\<exists>c_id o_id new_objs new_id.
      add_object objs n (CircleData (construct_circle_from_points
          (getitem (points objs) c_id) (getitem (points objs) o_id))) = (new_objs, True, new_id)
      \<and> succ = (new_objs, \<lparr>operation = ''Circle'', inputs = [c_id, o_id],
          output_type = Circle, output_id = the new_id\<rparr>)"
    by (auto simp: circle_successors_def Let_def simp del: add_object.simps
          split: if_splits prod.splits) metis
  then obtain c_id o_id new_objs new_id where
    a: "add_object objs n (CircleData (construct_circle_from_points
          (getitem (points objs) c_id) (getitem (points objs) o_id))) = (new_objs, True, new_id)"
    and s: "succ = (new_objs, \<lparr>operation = ''Circle'', inputs = [c_id, o_id],
          output_type = Circle, output_id = the new_id\<rparr>)"
    by blast
  from add_object_grows [OF a] assms(2) show ?thesis unfolding s by simp
qed

text \<open>
  The inner loop of an intersection: when every id it can allocate is fresh, it only
  adds entries to \<open>points\<close>, and a set flag means a point with a new canonical form
  is in the result.
\<close>

lemma add_result_points_grows:
  assumes "add_result_points np ps objs added ids gen = (objs', added', ids', gen')"
    and "\<forall>m \<ge> np + gen. CHR ''p'' # str_of_nat m \<notin> fst ` set (points objs)"
  shows "map_of (points objs) \<subseteq>\<^sub>m map_of (points objs')
       \<and> lines objs' = lines objs \<and> circles objs' = circles objs
       \<and> (added' \<longrightarrow> added \<or> (\<exists>v \<in> set (dict_values (points objs')).
              \<not> canon_present (PointData v) objs))"
  using assms
proof (induction ps arbitrary: objs added ids gen)
  case Nil
  then show ?case by simp
next
  case (Cons q ps)
  let ?k = "CHR ''p'' # str_of_nat (np + gen)"
  show ?case
  proof (cases "canon_present (PointData q) objs")
    case True
    with Cons.prems(1) have "add_result_points np ps objs added ids gen = (objs', added', ids', gen')"
      by (simp add: add_object_eq)
    from Cons.IH [OF this Cons.prems(2)] show ?thesis .
  next
    case False
    let ?o = "store_figure objs ?k (PointData q)"
    from False Cons.prems(1)
    have rec: "add_result_points np ps ?o True (ids @ [?k]) (gen + 1) = (objs', added', ids', gen')"
      by (simp add: add_object_eq)
    from Cons.prems(2) have fresh: "?k \<notin> fst ` set (points objs)" by simp
    have "\<forall>m \<ge> np + (gen + 1). CHR ''p'' # str_of_nat m \<notin> fst ` set (points ?o)"
    proof (intro allI impI)
      fix m assume m: "np + (gen + 1) \<le> m"
      then have "str_of_nat m \<noteq> str_of_nat (np + gen)"
        using str_of_nat_inject [of m "np + gen"] by auto
      moreover from m Cons.prems(2) have "CHR ''p'' # str_of_nat m \<notin> fst ` set (points objs)"
        by simp
      ultimately show "CHR ''p'' # str_of_nat m \<notin> fst ` set (points ?o)"
        by (simp add: dom_update)
    qed
    from Cons.IH [OF rec this]
    have ih: "map_of (points ?o) \<subseteq>\<^sub>m map_of (points objs')"
      "lines objs' = lines ?o" "circles objs' = circles ?o" by simp_all
    from fresh have le: "map_of (points objs) \<subseteq>\<^sub>m map_of (points ?o)"
      by (intro store_figure_grows) simp
    have "map_of (points ?o) ?k = Some q" by (simp add: update_conv')
    with ih(1) have "map_of (points objs') ?k = Some q"
      by (auto simp: map_le_def dom_def)
    then have "q \<in> set (dict_values (points objs'))"
      by (auto simp: dict_values_def dest!: map_of_SomeD intro: rev_image_eqI)
    with False have "\<exists>v \<in> set (dict_values (points objs')). \<not> canon_present (PointData v) objs"
      by blast
    with map_le_trans [OF le ih(1)] ih(2,3) show ?thesis by simp
  qed
qed

lemma config_step_grows:
  assumes "succ \<in> set (fst (config_step objs np cfg gen))"
    and "\<forall>m \<ge> np. CHR ''p'' # str_of_nat m \<notin> fst ` set (points objs)"
  shows "successor_grows objs succ"
proof -
  obtain results cnt where k: "intersect_config objs cfg = (results, cnt)"
    by (cases "intersect_config objs cfg")
  obtain o' added ids g' where
    a: "add_result_points np (take cnt results) objs False [] gen = (o', added, ids, g')"
    by (cases "add_result_points np (take cnt results) objs False [] gen")
  from assms(1) k a have added and s: "succ = (o', \<lparr>operation = ''Intersection'',
        inputs = [fst (snd cfg), snd (snd cfg)], output_type = Point, output_id = hd ids\<rparr>)"
    by (auto simp: config_step_def split: if_splits)
  from assms(2) have "\<forall>m \<ge> np + gen. CHR ''p'' # str_of_nat m \<notin> fst ` set (points objs)"
    by simp
  from add_result_points_grows [OF a this] \<open>added\<close>
  show ?thesis unfolding s
    by (auto simp: successor_grows_def)
qed

lemma intersection_successors_grow:
  assumes "succ \<in> set (intersection_successors objs np cfgs gen)"
    and "\<forall>m \<ge> np. CHR ''p'' # str_of_nat m \<notin> fst ` set (points objs)"
  shows "successor_grows objs succ"
  using assms(1)
proof (induction cfgs arbitrary: gen)
  case Nil
  then show ?case by simp
next
  case (Cons cfg cfgs)
  obtain new g' where c: "config_step objs np cfg gen = (new, g')"
    by (cases "config_step objs np cfg gen")
  with Cons.prems consider "succ \<in> set (fst (config_step objs np cfg gen))"
    | "succ \<in> set (intersection_successors objs np cfgs g')"
    by auto
  then show ?case
  proof cases
    case 1
    then show ?thesis using assms(2) by (rule config_step_grows)
  next
    case 2
    then show ?thesis by (rule Cons.IH)
  qed
qed

text \<open>
  When the counters of a state are above every ordinal in use, as they are in the
  initial state and after every step that adds one figure, every successor keeps
  each \<open>(id, figure)\<close> pair of the state, leaves the sub-mappings of the other two
  types as they are, and holds a figure of the step's output type whose canonical
  form the state does not have.
\<close>

theorem successors_grow:
  assumes "counters_above_ids s" and "succ \<in> set (generate_successors s)"
  shows "successor_grows (fst s) succ"
proof -
  obtain objs ids where s: "s = (objs, ids)" by (cases s)
  from assms(1) have ob: "ordinals_below (points objs) (ids Point)"
    "ordinals_below (lines objs) (ids Line)" "ordinals_below (circles objs) (ids Circle)"
    by (simp_all add: counters_above_ids_def s)
  from assms(2) consider
      "succ \<in> set (intersection_successors objs (ids Point) (intersection_configs objs) 0)"
    | "succ \<in> set (line_successors objs (ids Line))"
    | "succ \<in> set (circle_successors objs (ids Circle))"
    by (auto simp: generate_successors_def s)
  then show ?thesis
  proof cases
    case 1
    moreover have "\<forall>m \<ge> ids Point. CHR ''p'' # str_of_nat m \<notin> fst ` set (points objs)"
      using fresh_id [OF ob(1), where t = Point] by simp
    ultimately show ?thesis unfolding s fst_conv by (rule intersection_successors_grow)
  next
    case 2
    then show ?thesis unfolding s fst_conv
      by (rule line_successors_grow) (use fresh_id [OF ob(2), where t = Line] in simp)
  next
    case 3
    then show ?thesis unfolding s fst_conv
      by (rule circle_successors_grow) (use fresh_id [OF ob(3), where t = Circle] in simp)
  qed
qed


theorem successors_grow_witness:
  "counters_above_ids (two_points_one_line, seeds_3_2_1)
   \<and> (two_points_one_line\<lparr>circles := [(''c1'', (0, 0, 4))]\<rparr>,
       \<lparr>operation = ''Circle'', inputs = [''p1'', ''p2''], output_type = Circle,
        output_id = ''c1''\<rparr>)
       \<in> set (generate_successors (two_points_one_line, seeds_3_2_1))
   \<and> successor_grows two_points_one_line
       (two_points_one_line\<lparr>circles := [(''c1'', (0, 0, 4))]\<rparr>,
        \<lparr>operation = ''Circle'', inputs = [''p1'', ''p2''], output_type = Circle,
         output_id = ''c1''\<rparr>)"
proof -
  have c: "counters_above_ids (two_points_one_line, seeds_3_2_1)"
    by (simp add: counters_above_ids_def ordinals_below_def eval_defs two_points_one_line_def
          seeds_3_2_1_def)
  have m: "(two_points_one_line\<lparr>circles := [(''c1'', (0, 0, 4))]\<rparr>,
       \<lparr>operation = ''Circle'', inputs = [''p1'', ''p2''], output_type = Circle,
        output_id = ''c1''\<rparr>)
       \<in> set (generate_successors (two_points_one_line, seeds_3_2_1))"
    by (simp add: eval_defs two_points_one_line_def seeds_3_2_1_def)
  from successors_grow [OF c m] c m show ?thesis by simp
qed


text \<open>
  \<open>reused_id_state\<close> is reached from \<open>two_new_points_input\<close> with its seeded
  counters \<open>seeds_4_2_2\<close> by the successor of \<open>Intersection(l1, c1)\<close> followed by the successor of
  \<open>Line(p1, p2)\<close>, each with the counters that \<open>solve\<close> gives the enqueued state.
\<close>

lemma reused_id_state_reached:
  "\<exists>succ1 \<in> set (generate_successors (two_new_points_input, seeds_4_2_2)).
     operation (snd succ1) = ''Intersection''
     \<and> (\<exists>succ2 \<in> set (generate_successors (fst succ1, advance_ids seeds_4_2_2 (snd succ1))).
           operation (snd succ2) = ''Line''
           \<and> reused_id_state =
               (fst succ2, advance_ids (advance_ids seeds_4_2_2 (snd succ1)) (snd succ2)))"
proof -
  let ?o1 = "\<lparr>points = [(''p1'', (0, 0)), (''p2'', (3, 0)), (''p3'', (0, 4)),
                (''p4'', (0 :: real, - 3 :: real)), (''p5'', (0, 3))],
       lines = [(''l1'', (- 4 :: real, 0 :: real, 0 :: real))],
       circles = [(''c1'', (0 :: real, 0 :: real, 9 :: real))]\<rparr>"
  let ?s1 = "\<lparr>operation = ''Intersection'', inputs = [''l1'', ''c1''],
       output_type = Point, output_id = ''p4''\<rparr>"
  let ?s2 = "\<lparr>operation = ''Line'', inputs = [''p1'', ''p2''],
       output_type = Line, output_id = ''l2''\<rparr>"
  let ?ids1 = "advance_ids seeds_4_2_2 ?s1"
  have m1: "(?o1, ?s1) \<in> set (generate_successors (two_new_points_input, seeds_4_2_2))"
    by (simp add: eval_defs two_new_points_input_def seeds_4_2_2_def sqrt_9 sqrt_16 sqrt_25)
  have ids1: "?ids1 Line = 2"
    by (simp add: eval_defs seeds_4_2_2_def)
  have "(fst reused_id_state, ?s2) \<in> set (line_successors ?o1 2)"
    unfolding line_successors_def
    by (simp add: reused_id_state_def dict_keys_def dict_values_def getitem_def
          construct_line_from_points_def normalize_line_def py_round_def rint_def
          HASH_PRECISION_def str_of_nat.simps sqrt_9 sqrt_16 Let_def)
  then have m2: "(fst reused_id_state, ?s2) \<in> set (generate_successors (?o1, ?ids1))"
    by (simp add: generate_successors_def ids1)
  have "snd reused_id_state = advance_ids ?ids1 ?s2"
    by (auto simp: fun_eq_iff reused_id_state_def eval_defs seeds_4_2_2_def
          split: obj_type.splits)
  then have "reused_id_state = (fst reused_id_state, advance_ids ?ids1 ?s2)"
    by (metis prod.collapse)
  with m1 m2 show ?thesis by force
qed

text \<open>
  C10 says that every successor keeps every \<open>(id, figure)\<close> pair of its state.
  \<open>_add_object\<close> allocates the id of a new figure from the next-id counter, and
  the generator takes \<open>next_ids['point'] + points_generated_in_this_call\<close> for each
  point of a call, so that a new figure never takes the key of an old one; but
  \<open>solve\<close> advances the counter from the single output id of a step, also when
  the step added two points. In \<open>reused_id_state\<close>, which a run on
  \<open>two_new_points_input\<close> reaches, the point counter is 5 and \<open>p5\<close> is a key,
  and the successor of \<open>Intersection(l2, c1)\<close> stores its new point \<open>(-3, 0)\<close> under
  \<open>p5\<close>, replacing the point \<open>(0, 3)\<close>: the pair \<open>(p5, (0, 3))\<close> of the state is
  not in the successor, where \<open>p5\<close> is \<open>(-3, 0)\<close>.
\<close>

theorem successor_overwrites_point:
  "(\<lparr>points = [(''p1'', (0, 0)), (''p2'', (3, 0)), (''p3'', (0, 4)), (''p4'', (0, - 3)),
               (''p5'', (- 3, 0))],
     lines = [(''l1'', (- 4, 0, 0)), (''l2'', (0, 3, 0))],
     circles = [(''c1'', (0, 0, 9))]\<rparr>,
    \<lparr>operation = ''Intersection'', inputs = [''l2'', ''c1''],
     output_type = Point, output_id = ''p5''\<rparr>) \<in> set (generate_successors reused_id_state)
   \<and> map_of (points (fst reused_id_state)) ''p5'' = Some (0, 3)
   \<and> map_of [(''p1'', (0, 0)), (''p2'', (3, 0)), (''p3'', (0, 4)), (''p4'', (0, - 3)),
              (''p5'', (- 3, 0))] ''p5'' = Some (- 3 :: real, 0 :: real)"
proof -
  let ?o = "\<lparr>points = [(''p1'', (0, 0)), (''p2'', (3, 0)), (''p3'', (0, 4)), (''p4'', (0 :: real, - 3 :: real)),
               (''p5'', (- 3, 0))],
     lines = [(''l1'', (- 4 :: real, 0 :: real, 0 :: real)), (''l2'', (0, 3, 0))],
     circles = [(''c1'', (0 :: real, 0 :: real, 9 :: real))]\<rparr>"
  let ?st = "\<lparr>operation = ''Intersection'', inputs = [''l2'', ''c1''],
     output_type = Point, output_id = ''p5''\<rparr>"
  have "intersection_successors (fst reused_id_state) 5
          (intersection_configs (fst reused_id_state)) 0 = [(?o, ?st)]"
    by (simp add: reused_id_state_def intersection_configs_def dict_keys_def dict_values_def
          config_step_def intersect_config_def getitem_def intersect_line_line_def
          intersect_line_circle_def EPSILON_def normalize_point_def py_round_def rint_def
          HASH_PRECISION_def str_of_nat.simps sqrt_9 Let_def)
  then have m: "(?o, ?st) \<in> set (generate_successors reused_id_state)"
    by (simp add: generate_successors_def reused_id_state_def)
  have "map_of (points (fst reused_id_state)) ''p5'' = Some (0, 3)"
    by (simp add: reused_id_state_def)
  with m show ?thesis by simp
qed

text \<open>In the terms of \<open>successor_grows\<close>: that successor does not keep the pairs of its state.\<close>

lemma overwriting_successor_not_grows:
  "\<not> successor_grows (fst reused_id_state)
        (\<lparr>points = [(''p1'', (0, 0)), (''p2'', (3, 0)), (''p3'', (0, 4)), (''p4'', (0, - 3)),
                    (''p5'', (- 3, 0))],
          lines = [(''l1'', (- 4, 0, 0)), (''l2'', (0, 3, 0))],
          circles = [(''c1'', (0, 0, 9))]\<rparr>,
         \<lparr>operation = ''Intersection'', inputs = [''l2'', ''c1''],
          output_type = Point, output_id = ''p5''\<rparr>)"
proof -
  let ?o = "\<lparr>points = [(''p1'', (0, 0)), (''p2'', (3, 0)), (''p3'', (0, 4)), (''p4'', (0 :: real, - 3 :: real)),
               (''p5'', (- 3, 0))],
     lines = [(''l1'', (- 4 :: real, 0 :: real, 0 :: real)), (''l2'', (0, 3, 0))],
     circles = [(''c1'', (0 :: real, 0 :: real, 9 :: real))]\<rparr>"
  have "\<not> map_of (points (fst reused_id_state)) \<subseteq>\<^sub>m map_of (points ?o)"
  proof
    assume "map_of (points (fst reused_id_state)) \<subseteq>\<^sub>m map_of (points ?o)"
    moreover have "''p5'' \<in> dom (map_of (points (fst reused_id_state)))"
      by (simp add: reused_id_state_def)
    ultimately have "map_of (points (fst reused_id_state)) ''p5'' = map_of (points ?o) ''p5''"
      unfolding map_le_def by (rule bspec)
    then show False by (simp add: reused_id_state_def)
  qed
  then show ?thesis by (simp add: successor_grows_def)
qed

section \<open>Further properties\<close>

subsection \<open>The order of the open list\<close>

lemma heappop_member: "heappop n ns = (m, rest) \<Longrightarrow> m \<in> set (n # ns)"
  by (induction n ns arbitrary: m rest rule: heappop.induct)
     (auto split: prod.splits if_splits)

lemma heappop_least:
  "heappop n ns = (m, rest) \<Longrightarrow> x \<in> set (n # ns) \<Longrightarrow> \<not> node_less x m"
proof (induction n ns arbitrary: m rest x rule: heappop.induct)
  case (1 n)
  then have "x = n" "m = n" by simp_all
  moreover have "\<not> node_less n n" unfolding node_less_def by linarith
  ultimately show ?case by simp
next
  case (2 n k ks)
  obtain least rest' where p: "heappop k ks = (least, rest')" by (cases "heappop k ks")
  have ih: "\<not> node_less y least" if "y \<in> set (k # ks)" for y
    using "2.IH" [OF p that] .
  show ?case
  proof (cases "node_less least n")
    case True
    with "2.prems"(1) p have m: "m = least" by simp
    from "2.prems"(2) consider "x = n" | "x \<in> set (k # ks)" by auto
    then show ?thesis
    proof cases
      case 1
      from True have "\<not> node_less n least" unfolding node_less_def by linarith
      then show ?thesis unfolding 1 m .
    next
      case 2
      with ih m show ?thesis by simp
    qed
  next
    case False
    with "2.prems"(1) p have m: "m = n" by simp
    from "2.prems"(2) consider "x = n" | "x \<in> set (k # ks)" by auto
    then show ?thesis
    proof cases
      case 1
      have "\<not> node_less n n" unfolding node_less_def by linarith
      then show ?thesis unfolding 1 m .
    next
      case 2
      from ih [OF 2] False show ?thesis unfolding m node_less_def by linarith
    qed
  qed
qed

lemma heappop_perm:
  assumes d: "distinct (map tie_breaker (n # ns))"
    and p: "mset (n' # ns') = mset (n # ns)"
    and h: "heappop n ns = (m, rest)" and h': "heappop n' ns' = (m', rest')"
  shows "m' = m \<and> mset rest' = mset rest"
proof -
  from p have s: "set (n' # ns') = set (n # ns)" by (rule mset_eq_setD)
  from heappop_member [OF h] have m: "m \<in> set (n # ns)" .
  from heappop_member [OF h'] s have m': "m' \<in> set (n # ns)" by blast
  from heappop_least [OF h m'] have 1: "\<not> node_less m' m" .
  from m s have "m \<in> set (n' # ns')" by blast
  from heappop_least [OF h' this] have 2: "\<not> node_less m m'" .
  from 1 2 have "tie_breaker m' = tie_breaker m" unfolding node_less_def by linarith
  with d m m' have eq: "m' = m"
    by (meson distinct_map inj_onD)
  from heappop_mset [OF h] heappop_mset [OF h'] p eq
  have "add_mset m (mset rest') = add_mset m (mset rest)" by simp
  with eq show ?thesis by simp
qed


text \<open>\<open>expand\<close> reads the open list only through its length, and pushes in front of it.\<close>

lemma expand_perm:
  assumes "mset ol' = mset ol"
  shows "(case expand target cur succs ol visited counter of
            Inl r \<Rightarrow> expand target cur succs ol' visited counter = Inl r
          | Inr (ol1, v1, c1) \<Rightarrow>
              (\<exists>ol2. expand target cur succs ol' visited counter = Inr (ol2, v1, c1)
                 \<and> mset ol2 = mset ol1))"
  using assms
proof (induction succs arbitrary: ol ol' visited counter)
  case Nil
  then show ?case by simp
next
  case (Cons a succs)
  obtain o1 s1 where a: "a = (o1, s1)" by (cases a)
  from Cons.prems have len: "length ol' = length ol" by (rule mset_eq_length)
  let ?child = "child_node (figure_type target) cur o1 s1 counter"
  from Cons.prems have "mset (?child # ol') = mset (?child # ol)" by simp
  note ih1 = Cons.IH [OF Cons.prems] and ih2 = Cons.IH [OF this]
  show ?case
    unfolding a expand.simps Let_def len
    using ih1 [of visited counter] ih2 [of "visited @ [get_state_hash o1]" "counter + 1"]
    by (simp only: split: if_splits) simp
qed

lemma expand_fresh:
  assumes "expand target cur succs ol visited counter = Inr (ol1, v1, c1)"
    and "tie_breakers_fresh ol counter"
  shows "tie_breakers_fresh ol1 c1"
  using assms
proof (induction succs arbitrary: ol visited counter)
  case Nil
  then show ?case by simp
next
  case (Cons a succs)
  obtain o1 s1 where a: "a = (o1, s1)" by (cases a)
  let ?child = "child_node (figure_type target) cur o1 s1 counter"
  have tb: "tie_breaker ?child = counter" by (simp add: child_node_def Let_def)
  from Cons.prems(2) have "tie_breakers_fresh (?child # ol) (counter + 1)"
    unfolding tie_breakers_fresh_def list_all_iff
    by (auto simp: tb)
  note ih1 = Cons.IH [OF _ Cons.prems(2)] and ih2 = Cons.IH [OF _ this]
  from Cons.prems(1) consider
      "expand target cur succs ol visited counter = Inr (ol1, v1, c1)"
    | "expand target cur succs (?child # ol) (visited @ [get_state_hash o1]) (counter + 1)
         = Inr (ol1, v1, c1)"
    unfolding a expand.simps Let_def by (auto split: if_splits)
  then show ?case using ih1 ih2 by cases blast+
qed


lemma tie_breakers_fresh_rest:
  assumes "mset ol = add_mset m (mset rest)" and "tie_breakers_fresh ol counter"
  shows "tie_breakers_fresh rest counter"
proof -
  from assms(1) have "mset (map tie_breaker ol) = mset (map tie_breaker (m # rest))"
    by (metis mset.simps(2) mset_map)
  then have "distinct (map tie_breaker ol) = distinct (map tie_breaker (m # rest))"
    by (rule mset_eq_imp_distinct_iff)
  moreover from assms(1) have "set rest \<subseteq> set ol"
    by (metis mset.simps(2) mset_eq_setD set_subset_Cons)
  ultimately show ?thesis
    using assms(2) unfolding tie_breakers_fresh_def list_all_iff by auto
qed

text \<open>
  The tie-breaker is a strictly increasing insertion counter, so the nodes of the open
  list have pairwise distinct tie-breakers below the counter. Under that invariant
  (which \<open>expand\<close> and \<open>heappop\<close> keep, and which holds for the initial open list of
  \<open>solve\<close>) the least node is unique, and the result of the search does not depend on
  the order in which the open list stores its nodes.
\<close>

theorem search_order_independent:
  assumes "tie_breakers_fresh ol counter" and "mset ol' = mset ol"
  shows "search target max_steps ol' visited counter = search target max_steps ol visited counter"
  using assms
proof (induction target max_steps ol visited counter arbitrary: ol' rule: search.induct)
  case (1 target max_steps open_list visited counter)
  show ?case
  proof (cases open_list)
    case Nil
    with "1.prems"(2) show ?thesis by simp
  next
    case (Cons n ns)
    with "1.prems"(2) obtain n' ns' where ol': "ol' = n' # ns'" by (cases ol') auto
    obtain cur rest where pop: "heappop n ns = (cur, rest)" by (cases "heappop n ns")
    obtain cur' rest' where pop': "heappop n' ns' = (cur', rest')" by (cases "heappop n' ns'")
    from "1.prems"(1) have d: "distinct (map tie_breaker (n # ns))"
      by (simp add: tie_breakers_fresh_def Cons)
    from "1.prems"(2) have "mset (n' # ns') = mset (n # ns)" by (simp add: ol' Cons)
    from heappop_perm [OF d this pop pop'] have cur': "cur' = cur"
      and rest': "mset rest' = mset rest" by simp_all
    from heappop_mset [OF pop] "1.prems"(1) have fresh: "tie_breakers_fresh rest counter"
      unfolding Cons by (rule tie_breakers_fresh_rest)
    show ?thesis
    proof (cases "max_steps \<le> int (g_cost cur)")
      case True
      from "1.IH"(1) [OF Cons pop [symmetric] True fresh rest']
      have "search target max_steps rest' visited counter
          = search target max_steps rest visited counter" .
      with True pop pop' cur' show ?thesis
        by (simp add: search.simps [of target max_steps "n # ns"]
              search.simps [of target max_steps "n' # ns'"] Cons ol')
    next
      case g: False
      let ?succs = "generate_successors (state cur)"
      show ?thesis
      proof (cases "expand target cur ?succs rest visited counter")
        case (Inl r)
        with expand_perm [OF rest', of target cur ?succs visited counter]
        have "expand target cur ?succs rest' visited counter = Inl r" by simp
        with Inl g pop pop' cur' show ?thesis
          by (simp add: search.simps [of target max_steps "n # ns"]
                search.simps [of target max_steps "n' # ns'"] Cons ol')
      next
        case (Inr b)
        obtain ol1 v1 c1 where b: "b = (ol1, v1, c1)" by (cases b)
        with Inr expand_perm [OF rest', of target cur ?succs visited counter]
        obtain ol2 where e2: "expand target cur ?succs rest' visited counter = Inr (ol2, v1, c1)"
          and m2: "mset ol2 = mset ol1" by auto
        from expand_fresh [OF Inr [unfolded b] fresh] have "tie_breakers_fresh ol1 c1" .
        from "1.IH"(2) [OF Cons pop [symmetric] g Inr [unfolded b] refl refl this m2]
        have "search target max_steps ol2 v1 c1 = search target max_steps ol1 v1 c1" .
        with Inr b e2 g pop pop' cur' show ?thesis
          by (simp add: search.simps [of target max_steps "n # ns"]
                search.simps [of target max_steps "n' # ns'"] Cons ol')
      qed
    qed
  qed
qed

theorem search_order_independent_witness:
  "search (PointData (- 2, 0)) 20
     [(initial_node two_points_one_line seeds_3_2_1 (PointData (- 2, 0)))\<lparr>tie_breaker := 1\<rparr>,
      initial_node two_points_one_line seeds_3_2_1 (PointData (- 2, 0))]
     [get_state_hash two_points_one_line] 2
   = search (PointData (- 2, 0)) 20
     [initial_node two_points_one_line seeds_3_2_1 (PointData (- 2, 0)),
      (initial_node two_points_one_line seeds_3_2_1 (PointData (- 2, 0)))\<lparr>tie_breaker := 1\<rparr>]
     [get_state_hash two_points_one_line] 2"
proof -
  let ?a = "initial_node two_points_one_line seeds_3_2_1 (PointData (- 2, 0))"
  have "tie_breakers_fresh [?a, ?a\<lparr>tie_breaker := 1\<rparr>] 2"
    by (simp add: tie_breakers_fresh_def initial_node_def Let_def)
  moreover have "mset [?a\<lparr>tie_breaker := 1\<rparr>, ?a] = mset [?a, ?a\<lparr>tie_breaker := 1\<rparr>]"
    by simp
  ultimately show ?thesis by (rule search_order_independent)
qed

end
